theory Spec2Isabelle
  imports Main "HOL-Library.Word" "HOL-Library.Monad_Syntax"
begin

unbundle bit_operations_syntax

section \<open>Boot record encoder: a model of \<^verbatim>\<open>hex2boot.py\<close>\<close>

text \<open>
  The program turns a firmware image into a stream of bootloader command records.
  Python integers are modelled as \<^typ>\<open>int\<close>, byte strings as lists of 8-bit words, and
  every exception the code can raise as the result \<^term>\<open>None\<close>: a function that
  writes to the output file \<^verbatim>\<open>brec\<close> takes the bytes written so far and returns the
  bytes written after it, or \<^term>\<open>None\<close> when it raised.
\<close>

type_synonym byte = "8 word"

subsection \<open>The checksum (lines 47 to 85)\<close>

definition CRC16_XMODEM_TABLE :: "int list" where
  "CRC16_XMODEM_TABLE = [
    0x0000, 0x1021, 0x2042, 0x3063, 0x4084, 0x50a5, 0x60c6, 0x70e7,
    0x8108, 0x9129, 0xa14a, 0xb16b, 0xc18c, 0xd1ad, 0xe1ce, 0xf1ef,
    0x1231, 0x0210, 0x3273, 0x2252, 0x52b5, 0x4294, 0x72f7, 0x62d6,
    0x9339, 0x8318, 0xb37b, 0xa35a, 0xd3bd, 0xc39c, 0xf3ff, 0xe3de,
    0x2462, 0x3443, 0x0420, 0x1401, 0x64e6, 0x74c7, 0x44a4, 0x5485,
    0xa56a, 0xb54b, 0x8528, 0x9509, 0xe5ee, 0xf5cf, 0xc5ac, 0xd58d,
    0x3653, 0x2672, 0x1611, 0x0630, 0x76d7, 0x66f6, 0x5695, 0x46b4,
    0xb75b, 0xa77a, 0x9719, 0x8738, 0xf7df, 0xe7fe, 0xd79d, 0xc7bc,
    0x48c4, 0x58e5, 0x6886, 0x78a7, 0x0840, 0x1861, 0x2802, 0x3823,
    0xc9cc, 0xd9ed, 0xe98e, 0xf9af, 0x8948, 0x9969, 0xa90a, 0xb92b,
    0x5af5, 0x4ad4, 0x7ab7, 0x6a96, 0x1a71, 0x0a50, 0x3a33, 0x2a12,
    0xdbfd, 0xcbdc, 0xfbbf, 0xeb9e, 0x9b79, 0x8b58, 0xbb3b, 0xab1a,
    0x6ca6, 0x7c87, 0x4ce4, 0x5cc5, 0x2c22, 0x3c03, 0x0c60, 0x1c41,
    0xedae, 0xfd8f, 0xcdec, 0xddcd, 0xad2a, 0xbd0b, 0x8d68, 0x9d49,
    0x7e97, 0x6eb6, 0x5ed5, 0x4ef4, 0x3e13, 0x2e32, 0x1e51, 0x0e70,
    0xff9f, 0xefbe, 0xdfdd, 0xcffc, 0xbf1b, 0xaf3a, 0x9f59, 0x8f78,
    0x9188, 0x81a9, 0xb1ca, 0xa1eb, 0xd10c, 0xc12d, 0xf14e, 0xe16f,
    0x1080, 0x00a1, 0x30c2, 0x20e3, 0x5004, 0x4025, 0x7046, 0x6067,
    0x83b9, 0x9398, 0xa3fb, 0xb3da, 0xc33d, 0xd31c, 0xe37f, 0xf35e,
    0x02b1, 0x1290, 0x22f3, 0x32d2, 0x4235, 0x5214, 0x6277, 0x7256,
    0xb5ea, 0xa5cb, 0x95a8, 0x8589, 0xf56e, 0xe54f, 0xd52c, 0xc50d,
    0x34e2, 0x24c3, 0x14a0, 0x0481, 0x7466, 0x6447, 0x5424, 0x4405,
    0xa7db, 0xb7fa, 0x8799, 0x97b8, 0xe75f, 0xf77e, 0xc71d, 0xd73c,
    0x26d3, 0x36f2, 0x0691, 0x16b0, 0x6657, 0x7676, 0x4615, 0x5634,
    0xd94c, 0xc96d, 0xf90e, 0xe92f, 0x99c8, 0x89e9, 0xb98a, 0xa9ab,
    0x5844, 0x4865, 0x7806, 0x6827, 0x18c0, 0x08e1, 0x3882, 0x28a3,
    0xcb7d, 0xdb5c, 0xeb3f, 0xfb1e, 0x8bf9, 0x9bd8, 0xabbb, 0xbb9a,
    0x4a75, 0x5a54, 0x6a37, 0x7a16, 0x0af1, 0x1ad0, 0x2ab3, 0x3a92,
    0xfd2e, 0xed0f, 0xdd6c, 0xcd4d, 0xbdaa, 0xad8b, 0x9de8, 0x8dc9,
    0x7c26, 0x6c07, 0x5c64, 0x4c45, 0x3ca2, 0x2c83, 0x1ce0, 0x0cc1,
    0xef1f, 0xff3e, 0xcf5d, 0xdf7c, 0xaf9b, 0xbfba, 0x8fd9, 0x9ff8,
    0x6e17, 0x7e36, 0x4e55, 0x5e74, 0x2e93, 0x3eb2, 0x0ed1, 0x1ef0]"

text \<open>
  The body of the \<^verbatim>\<open>for byte in bytearray(data)\<close> loop of \<^verbatim>\<open>crc16\<close>. The index
  \<^verbatim>\<open>((crc>>8) & 0xff) ^ byte\<close> is always below 256 (lemma \<open>crc16_lookup_in_range\<close>), so
  the table lookup never raises. The \<^verbatim>\<open>table\<close> parameter is never passed by a caller
  and is fixed to its default.
\<close>

primrec crc16_loop :: "byte list \<Rightarrow> int \<Rightarrow> int" where
  "crc16_loop [] crc = crc"
| "crc16_loop (byte # data) crc =
     crc16_loop data
       (((push_bit 8 crc) AND 0xff00) XOR
        (CRC16_XMODEM_TABLE ! nat (((drop_bit 8 crc) AND 0xff) XOR uint byte)))"

definition crc16 :: "byte list \<Rightarrow> int \<Rightarrow> int" where
  "crc16 data crc = (crc16_loop data crc) AND 0xffff"

text \<open>
  The reference the table is compared with, written from the definition of CRC-16/XMODEM:
  a 16-bit register, each message byte is XORed into the high byte, then the register is
  shifted left eight times, most significant bit first, and the polynomial \<open>0x1021\<close> is
  XORed in whenever a set bit is shifted out. Nothing is reflected and nothing is XORed
  into the result.
\<close>

definition crc_shift :: "16 word \<Rightarrow> 16 word" where
  "crc_shift c = (if bit c 15 then (push_bit 1 c) XOR 0x1021 else push_bit 1 c)"

definition crc_byte :: "16 word \<Rightarrow> byte \<Rightarrow> 16 word" where
  "crc_byte c b = (crc_shift ^^ 8) (c XOR push_bit 8 (ucast b))"

definition crc16_xmodem_ref :: "byte list \<Rightarrow> 16 word \<Rightarrow> 16 word" where
  "crc16_xmodem_ref data c = foldl crc_byte c data"

text \<open>The table read as 16-bit words, and the entry the reference computes for an index.\<close>

definition table_word :: "16 word list" where
  "table_word = map word_of_int CRC16_XMODEM_TABLE"

definition crc_table_entry :: "nat \<Rightarrow> 16 word" where
  "crc_table_entry i = (crc_shift ^^ 8) (push_bit 8 (word_of_nat i))"

subsection \<open>Record constructors (lines 87 to 115)\<close>

text \<open>
  \<^verbatim>\<open>struct.pack\<close> with the big-endian formats \<^verbatim>\<open>B\<close> (one unsigned byte) and \<^verbatim>\<open>H\<close>
  (two bytes, high byte first). A value outside the field's range raises
  \<^verbatim>\<open>struct.error\<close>, the result \<^term>\<open>None\<close>. The marker \<^verbatim>\<open>FSB\<close> is the one
  byte of the format \<^verbatim>\<open>c\<close>. A parameter with a default value (\<^verbatim>\<open>keys\<close>, \<^verbatim>\<open>option\<close>)
  is an argument of the model, and the default is a constant of its own.
\<close>

definition pack_B :: "int \<Rightarrow> byte list option" where
  "pack_B v = (if 0 \<le> v \<and> v \<le> 0xFF then Some [word_of_int v] else None)"

definition pack_H :: "int \<Rightarrow> byte list option" where
  "pack_H v = (if 0 \<le> v \<and> v \<le> 0xFFFF
               then Some [word_of_int (v div 256), word_of_int (v mod 256)] else None)"

definition FSB :: "byte list" where
  "FSB = [0x24]"

definition bin_ident :: "int \<Rightarrow> byte list option" where
  "bin_ident blid = do {
     l \<leftarrow> pack_B 3; t \<leftarrow> pack_B 0x30; v \<leftarrow> pack_H blid;
     Some (FSB @ l @ t @ v) }"

definition keys_default :: int where
  "keys_default = 0xA5F1"

definition bin_setup :: "int \<Rightarrow> int \<Rightarrow> byte list option" where
  "bin_setup bank keys = do {
     l \<leftarrow> pack_B 4; t \<leftarrow> pack_B 0x31; k \<leftarrow> pack_H keys; b \<leftarrow> pack_B bank;
     Some (FSB @ l @ t @ k @ b) }"

definition bin_erase :: "int \<Rightarrow> byte list \<Rightarrow> byte list option" where
  "bin_erase addr data = do {
     l \<leftarrow> pack_B (3 + int (length data)); t \<leftarrow> pack_B 0x32; a \<leftarrow> pack_H addr;
     Some (FSB @ l @ t @ a @ data) }"

definition bin_write :: "int \<Rightarrow> byte list \<Rightarrow> byte list option" where
  "bin_write addr data = do {
     l \<leftarrow> pack_B (3 + int (length data)); t \<leftarrow> pack_B 0x33; a \<leftarrow> pack_H addr;
     Some (FSB @ l @ t @ a @ data) }"

definition bin_verify :: "int \<Rightarrow> int \<Rightarrow> int \<Rightarrow> byte list option" where
  "bin_verify org end' crc = do {
     l \<leftarrow> pack_B 7; t \<leftarrow> pack_B 0x34;
     a \<leftarrow> pack_H org; e \<leftarrow> pack_H end'; c \<leftarrow> pack_H crc;
     Some (FSB @ l @ t @ a @ e @ c) }"

definition bin_lock :: "int \<Rightarrow> byte list option" where
  "bin_lock lock = do {
     l \<leftarrow> pack_B 3; t \<leftarrow> pack_B 0x35; v \<leftarrow> pack_H lock;
     Some (FSB @ l @ t @ v) }"

definition option_default :: int where
  "option_default = 0"

definition bin_runapp :: "int \<Rightarrow> byte list option" where
  "bin_runapp option = do {
     l \<leftarrow> pack_B 3; t \<leftarrow> pack_B 0x36; v \<leftarrow> pack_H option;
     Some (FSB @ l @ t @ v) }"

subsection \<open>Device maps and the region planner (lines 117 to 130)\<close>

text \<open>A region is the triple \<^verbatim>\<open>[start, stop, page]\<close>; the map name is a string or \<^verbatim>\<open>None\<close>.\<close>

type_synonym region = "int \<times> int \<times> int"

definition region_table :: "(string option \<times> region list) list" where
  "region_table = [
     (Some ''bb2'',  [(0x0000, 0x3DFF, 512), (0xF800, 0xFBBF, 64)]),
     (Some ''bb50'', [(0x0000, 0x37FF, 2048)]),
     (Some ''bb51'', [(0x0000, 0x37FF, 2048)]),
     (Some ''bb52'', [(0x0000, 0x77FF, 2048)]),
     (Some ''sb2'',  [(0x0000, 0xF7FF, 1024)]),
     (Some ''ub1'',  [(0x0000, 0x3DFF, 512), (0xF800, 0xFBBF, 64)])]"

definition regions :: "string option \<Rightarrow> region list" where
  "regions type = (case map_of region_table type of
                     Some rs \<Rightarrow> rs
                   | None \<Rightarrow> [(0x0000, 0xFBFF, 512)])"

text \<open>The generator \<^verbatim>\<open>get_regions\<close>: the list of the triples it yields, in order.\<close>

fun get_regions_loop :: "int \<Rightarrow> int \<Rightarrow> region list \<Rightarrow> region list" where
  "get_regions_loop org top' [] = []"
| "get_regions_loop org top' ((start, stop, page) # rest) =
     (if max org start < min top' stop
      then (max org start, min top' stop, page) # get_regions_loop org top' rest
      else get_regions_loop org top' rest)"

definition get_regions :: "int \<Rightarrow> int \<Rightarrow> string option \<Rightarrow> region list" where
  "get_regions org top' type = get_regions_loop org top' (regions type)"

subsection \<open>Python built-ins the translators use\<close>

text \<open>
  \<^verbatim>\<open>range(start, stop, step)\<close>: a zero step raises \<^verbatim>\<open>ValueError\<close>, a positive step
  counts up while below \<^verbatim>\<open>stop\<close>, a negative one counts down while above it.
\<close>

function range_up :: "int \<Rightarrow> int \<Rightarrow> int \<Rightarrow> int list" where
  "range_up start stop step =
     (if 0 < step \<and> start < stop then start # range_up (start + step) stop step else [])"
  by pat_completeness auto
termination
  by (relation "measure (\<lambda>(start, stop, step). nat (stop - start))") auto

declare range_up.simps [simp del]

function range_down :: "int \<Rightarrow> int \<Rightarrow> int \<Rightarrow> int list" where
  "range_down start stop step =
     (if step < 0 \<and> stop < start then start # range_down (start + step) stop step else [])"
  by pat_completeness auto
termination
  by (relation "measure (\<lambda>(start, stop, step). nat (start - stop))") auto

declare range_down.simps [simp del]

definition py_range :: "int \<Rightarrow> int \<Rightarrow> int \<Rightarrow> int list option" where
  "py_range start stop step =
     (if step = 0 then None
      else if 0 < step then Some (range_up start stop step)
      else Some (range_down start stop step))"

text \<open>
  \<^verbatim>\<open>int(a / b)\<close>: true division, then truncation towards zero; a zero divisor raises
  \<^verbatim>\<open>ZeroDivisionError\<close>. The quotient of two integers below \<open>2^53\<close> in absolute value
  is truncated exactly; larger addresses do not fit a record and make \<^verbatim>\<open>struct.pack\<close>
  raise in any case.
\<close>

definition int_truediv :: "int \<Rightarrow> int \<Rightarrow> int option" where
  "int_truediv a b = (if b = 0 then None else Some (sgn a * sgn b * (\<bar>a\<bar> div \<bar>b\<bar>)))"

subsection \<open>The image object of the \<^verbatim>\<open>intelhex\<close> library\<close>

text \<open>
  \<^verbatim>\<open>intelhex\<close> is an external library. An \<^verbatim>\<open>IntelHex\<close> object holds a dictionary from
  addresses to bytes, modelled as an association list read with \<^const>\<open>map_of\<close>, and the
  padding byte \<open>0xFF\<close> it returns for an address without data. The operations below are
  the ones \<^verbatim>\<open>hex2boot.py\<close> calls, with the library's behaviour:
  \<^item> \<^verbatim>\<open>ih.addresses()\<close> is the sorted list of the populated addresses;
  \<^item> \<^verbatim>\<open>ih[addr]\<close> is the byte at \<^verbatim>\<open>addr\<close>, or the padding byte;
  \<^item> \<^verbatim>\<open>ih[addr] = v\<close> stores a byte in the object itself;
  \<^item> \<^verbatim>\<open>ih[slice(start, stop)]\<close> is a new object with the populated addresses
    \<^verbatim>\<open>start <= a < stop\<close> (Python's half-open slice; a bound that is 0 or \<^verbatim>\<open>None\<close>
    stands for the first populated address, respectively one past the last);
  \<^item> \<^verbatim>\<open>ih.tobinstr(start=a, size=n)\<close> is the \<^verbatim>\<open>n\<close> bytes from \<^verbatim>\<open>a\<close> on, padded, and
    raises \<^verbatim>\<open>ValueError\<close> when \<^verbatim>\<open>n <= 0\<close>;
  \<^item> \<^verbatim>\<open>IntelHex(source)\<close> loads the source into a new object.
\<close>

type_synonym image = "(int \<times> byte) list"

definition padding :: byte where
  "padding = 0xFF"

definition ih_addresses :: "image \<Rightarrow> int list" where
  "ih_addresses ih = sort (remdups (map fst ih))"

definition ih_getitem :: "image \<Rightarrow> int \<Rightarrow> byte" where
  "ih_getitem ih addr = (case map_of ih addr of Some x \<Rightarrow> x | None \<Rightarrow> padding)"

definition ih_setitem :: "image \<Rightarrow> int \<Rightarrow> byte \<Rightarrow> image" where
  "ih_setitem ih addr v = (addr, v) # filter (\<lambda>(a, x). a \<noteq> addr) ih"

definition ih_slice :: "image \<Rightarrow> int \<Rightarrow> int \<Rightarrow> image" where
  "ih_slice ih start stop =
     (let addresses = ih_addresses ih in
      if addresses \<noteq> [] then
        (let start' = (if start \<noteq> 0 then start else hd addresses);
             stop' = (if stop \<noteq> 0 then stop else last addresses + 1)
         in filter (\<lambda>(a, x). start' \<le> a \<and> a < stop') ih)
      else [])"

definition ih_tobinstr :: "image \<Rightarrow> int \<Rightarrow> int \<Rightarrow> byte list option" where
  "ih_tobinstr ih start size' =
     (if size' \<le> 0 then None else Some (map (ih_getitem ih) [start..start + size' - 1]))"

text \<open>
  Objects live in a store and are named by their position in it, so that a write to one
  object can be told from a write to another. \<^verbatim>\<open>IntelHex(source)\<close> allocates a new
  object holding the data of \<^verbatim>\<open>source\<close>; it raises when there is no such source.
\<close>

type_synonym store = "image list"

definition IntelHex :: "store \<Rightarrow> nat \<Rightarrow> (store \<times> nat) option" where
  "IntelHex s source =
     (if source < length s then Some (s @ [s ! source], length s) else None)"

subsection \<open>The image translator (lines 132 to 150)\<close>

text \<open>
  The loop over \<^verbatim>\<open>range(minaddr, maxaddr+1, recsize)\<close>, with the running checksum and the
  output as its state. The parameters \<^verbatim>\<open>page\<close> and \<^verbatim>\<open>erase\<close> are always passed.
\<close>

fun mem2boot_loop ::
  "image \<Rightarrow> int \<Rightarrow> int \<Rightarrow> int \<Rightarrow> int \<Rightarrow> int list \<Rightarrow> int \<times> byte list \<Rightarrow> (int \<times> byte list) option"
where
  "mem2boot_loop ih page erase maxaddr recsize [] (crc, brec) = Some (crc, brec)"
| "mem2boot_loop ih page erase maxaddr recsize (addr # rest) (crc, brec) = do {
     let size' = min recsize (maxaddr - addr + 1);
     data \<leftarrow> ih_tobinstr ih addr size';
     let crc = crc16 data crc;
     bin \<leftarrow> (if erase = 0 \<or> addr mod page \<noteq> 0 then bin_write addr data
            else if erase = 1 then do {
              e \<leftarrow> bin_erase addr [];
              w \<leftarrow> bin_write addr data;
              Some (e @ w) }
            else bin_erase addr data);
     mem2boot_loop ih page erase maxaddr recsize rest (crc, brec @ bin) }"

definition mem2boot :: "byte list \<Rightarrow> image \<Rightarrow> int \<Rightarrow> int \<Rightarrow> byte list option" where
  "mem2boot brec ih page erase =
     (let addresses = ih_addresses ih in
      if addresses \<noteq> [] then do {
        q \<leftarrow> int_truediv (hd addresses) page;
        let minaddr = q * page;
        let maxaddr = last addresses;
        let recsize = min 128 page;
        addrs \<leftarrow> py_range minaddr (maxaddr + 1) recsize;
        (crc, brec) \<leftarrow> mem2boot_loop ih page erase maxaddr recsize addrs (0, brec);
        v \<leftarrow> bin_verify minaddr maxaddr crc;
        Some (brec @ v) }
      else Some brec)"

subsection \<open>The range-erase translator (lines 152 to 157)\<close>

fun erase2boot_loop :: "int list \<Rightarrow> byte list \<Rightarrow> byte list option" where
  "erase2boot_loop [] brec = Some brec"
| "erase2boot_loop (addr # rest) brec = do {
     e \<leftarrow> bin_erase addr [];
     erase2boot_loop rest (brec @ e) }"

definition erase2boot :: "byte list \<Rightarrow> int \<Rightarrow> int \<Rightarrow> int \<Rightarrow> byte list option" where
  "erase2boot brec start stop page = do {
     q \<leftarrow> int_truediv start page;
     let page_start = q * page;
     addrs \<leftarrow> py_range page_start (stop + 1) page;
     brec \<leftarrow> erase2boot_loop addrs brec;
     let size' = stop - start + 1;
     v \<leftarrow> bin_verify start stop (crc16 (replicate (nat size') 0xFF) 0);
     Some (brec @ v) }"

subsection \<open>The session (lines 159 to 182)\<close>

text \<open>
  The parsed command line. \<^verbatim>\<open>args.hexfile\<close> names the caller's image source, an object
  of the store, or is \<^verbatim>\<open>None\<close>; \<^verbatim>\<open>args.lock\<close> and \<^verbatim>\<open>args.map\<close> may be \<^verbatim>\<open>None\<close>.
\<close>

record args =
  arg_bank :: int
  arg_erase :: int
  arg_id :: "int list"
  arg_lock :: "int option"
  arg_map :: "string option"
  arg_start :: int
  arg_top :: int
  arg_wait :: bool
  arg_hexfile :: "nat option"

fun ident_loop :: "int list \<Rightarrow> byte list \<Rightarrow> byte list option" where
  "ident_loop [] brec = Some brec"
| "ident_loop (blid # rest) brec = do {
     i \<leftarrow> bin_ident blid;
     ident_loop rest (brec @ i) }"

fun mem_regions_loop :: "image \<Rightarrow> int \<Rightarrow> region list \<Rightarrow> byte list \<Rightarrow> byte list option" where
  "mem_regions_loop ih erase [] brec = Some brec"
| "mem_regions_loop ih erase ((start, stop, page) # rest) brec = do {
     brec \<leftarrow> mem2boot brec (ih_slice ih start stop) page erase;
     mem_regions_loop ih erase rest brec }"

fun erase_regions_loop :: "region list \<Rightarrow> byte list \<Rightarrow> byte list option" where
  "erase_regions_loop [] brec = Some brec"
| "erase_regions_loop ((start, stop, page) # rest) brec = do {
     brec \<leftarrow> erase2boot brec start stop page;
     erase_regions_loop rest brec }"

text \<open>
  \<^verbatim>\<open>hex2boot\<close> takes the store and the output written so far, and returns both as they
  are when it returns. The image it translates is the object \<^verbatim>\<open>ih\<close> it allocates.
\<close>

definition hex2boot :: "store \<Rightarrow> byte list \<Rightarrow> args \<Rightarrow> (store \<times> byte list) option" where
  "hex2boot s brec args =
     (let failsafe = (arg_bank args = 0 \<and> arg_start args = 0) in do {
        brec \<leftarrow> ident_loop (arg_id args) brec;
        b \<leftarrow> bin_setup (arg_bank args) keys_default;
        let brec = brec @ b;
        (s, brec) \<leftarrow>
          (case arg_hexfile args of
             Some source \<Rightarrow> do {
               (s, ih) \<leftarrow> IntelHex s source;
               let resetv = ih_getitem (s ! ih) 0;
               let s = (if failsafe \<and> resetv \<noteq> 0xFF
                        then s[ih := ih_setitem (s ! ih) 0 0xFF] else s);
               brec \<leftarrow> mem_regions_loop (s ! ih) (arg_erase args)
                         (get_regions (arg_start args) (arg_top args) (arg_map args)) brec;
               brec \<leftarrow> (if failsafe \<and> resetv \<noteq> 0xFF
                         then do { w \<leftarrow> bin_write 0 [resetv]; Some (brec @ w) }
                         else Some brec);
               Some (s, brec) }
           | None \<Rightarrow>
               if arg_lock args = None
               then do {
                 brec \<leftarrow> erase_regions_loop
                           (get_regions (arg_start args) (arg_top args) (arg_map args)) brec;
                 Some (s, brec) }
               else Some (s, brec));
        brec \<leftarrow> (case arg_lock args of
                   Some lock \<Rightarrow> do { l \<leftarrow> bin_lock lock; Some (brec @ l) }
                 | None \<Rightarrow> Some brec);
        brec \<leftarrow> (if \<not> arg_wait args
                  then do { r \<leftarrow> bin_runapp option_default; Some (brec @ r) }
                  else Some brec);
        Some (s, brec) })"

subsection \<open>Records as values, for stating what a translator wrote\<close>

text \<open>
  A value of \<open>boot_record\<close> stands for one call of a record constructor with its arguments;
  \<open>bin_record\<close> makes that call, and \<open>bin_records\<close> concatenates the bytes of the calls of a
  list, in order.
\<close>

datatype boot_record =
    Identity int
  | Setup int int
  | Erase int "byte list"
  | Write int "byte list"
  | Verify int int int
  | Lock int
  | RunApp int

fun bin_record :: "boot_record \<Rightarrow> byte list option" where
  "bin_record (Identity blid) = bin_ident blid"
| "bin_record (Setup bank keys) = bin_setup bank keys"
| "bin_record (Erase addr data) = bin_erase addr data"
| "bin_record (Write addr data) = bin_write addr data"
| "bin_record (Verify org end' crc) = bin_verify org end' crc"
| "bin_record (Lock lock) = bin_lock lock"
| "bin_record (RunApp option) = bin_runapp option"

fun bin_records :: "boot_record list \<Rightarrow> byte list option" where
  "bin_records [] = Some []"
| "bin_records (r # rs) = do {
     b \<leftarrow> bin_record r;
     bs \<leftarrow> bin_records rs;
     Some (b @ bs) }"

text \<open>
  The records of the memory phase, whether the data of a record covers an address, and
  the byte the record carries for it.
\<close>

fun is_memory_record :: "boot_record \<Rightarrow> bool" where
  "is_memory_record (Erase addr data) = True"
| "is_memory_record (Write addr data) = True"
| "is_memory_record (Verify org end' crc) = True"
| "is_memory_record r = False"

fun covers :: "boot_record \<Rightarrow> int \<Rightarrow> bool" where
  "covers (Erase addr data) x = (addr \<le> x \<and> x < addr + int (length data))"
| "covers (Write addr data) x = (addr \<le> x \<and> x < addr + int (length data))"
| "covers r x = False"

fun byte_at :: "boot_record \<Rightarrow> int \<Rightarrow> byte option" where
  "byte_at (Erase addr data) x =
     (if addr \<le> x \<and> x < addr + int (length data) then Some (data ! nat (x - addr)) else None)"
| "byte_at (Write addr data) x =
     (if addr \<le> x \<and> x < addr + int (length data) then Some (data ! nat (x - addr)) else None)"
| "byte_at r x = None"

subsection \<open>The image translator as the specification describes it\<close>

text \<open>
  A second description of the image translator, following section 4.4 of the
  specification instead of the code, for comparison with \<open>mem2boot\<close>: the walk from
  \<open>low\<close> to \<open>high\<close> in steps of \<open>chunk\<close>, the data read for the chunk at an address
  (at most \<open>chunk\<close> bytes, clamped at \<open>high\<close>, padded with \<open>0xFF\<close>), the records emitted
  for a chunk, and the whole record sequence of an image view: the records of the chunks
  in walk order, then one Verify with the checksum of all the data read, in that order.
\<close>

definition spec_walk :: "int \<Rightarrow> int \<Rightarrow> int \<Rightarrow> int list" where
  "spec_walk low high chunk =
     map (\<lambda>k. low + int k * chunk) [0..<nat ((high - low) div chunk + 1)]"

definition spec_chunk_data :: "image \<Rightarrow> int \<Rightarrow> int \<Rightarrow> int \<Rightarrow> byte list" where
  "spec_chunk_data ih high chunk addr =
     map (ih_getitem ih) [addr..addr + min chunk (high - addr + 1) - 1]"

definition spec_chunk_records ::
  "image \<Rightarrow> int \<Rightarrow> int \<Rightarrow> int \<Rightarrow> int \<Rightarrow> int \<Rightarrow> boot_record list" where
  "spec_chunk_records ih page erase high chunk addr =
     (let data = spec_chunk_data ih high chunk addr in
      if erase = 0 \<or> addr mod page \<noteq> 0 then [Write addr data]
      else if erase = 1 then [Erase addr [], Write addr data]
      else [Erase addr data])"

definition spec_translate :: "image \<Rightarrow> int \<Rightarrow> int \<Rightarrow> boot_record list" where
  "spec_translate ih page erase =
     (if ih = [] then []
      else
        let low = (Min (fst ` set ih) div page) * page;
            high = Max (fst ` set ih);
            chunk = min 128 page;
            addrs = spec_walk low high chunk
        in concat (map (spec_chunk_records ih page erase high chunk) addrs)
           @ [Verify low high (crc16 (concat (map (spec_chunk_data ih high chunk) addrs)) 0)])"

section \<open>The checksum is CRC-16/XMODEM\<close>

lemma funpow8: "(f ^^ 8) x = f (f (f (f (f (f (f (f x)))))))"
  by (simp add: eval_nat_numeral)

lemma table_word_doubling:
  "table_word = concat (map (\<lambda>t. [crc_shift t, crc_shift t XOR 0x1021]) (take 128 table_word))"
  unfolding table_word_def CRC16_XMODEM_TABLE_def
  by (simp add: crc_shift_def)


lemma nth_concat_pairs:
  "i < length xs \<Longrightarrow>
     concat (map (\<lambda>t. [f t, g t]) xs) ! (2 * i) = f (xs ! i) \<and>
     concat (map (\<lambda>t. [f t, g t]) xs) ! Suc (2 * i) = g (xs ! i)"
proof (induction xs arbitrary: i)
  case Nil
  then show ?case by simp
next
  case (Cons x xs)
  show ?case
  proof (cases i)
    case 0
    then show ?thesis by simp
  next
    case (Suc j)
    with Cons.prems have "j < length xs" by simp
    from Cons.IH [OF this] Suc show ?thesis by simp
  qed
qed

lemma crc_shift_xor: "crc_shift (a XOR b) = crc_shift a XOR crc_shift b"
  by (cases "bit a 15"; cases "bit b 15")
     (simp_all add: crc_shift_def bit_xor_iff push_bit_xor ac_simps)

lemma crc_shift_pow_xor:
  "(crc_shift ^^ n) (a XOR b) = (crc_shift ^^ n) a XOR (crc_shift ^^ n) b"
  by (induction n) (simp_all add: crc_shift_xor)

lemma crc_shift_zero: "(crc_shift ^^ n) 0 = 0"
  by (induction n) (simp_all add: crc_shift_def)

lemma crc_table_entry_0: "crc_table_entry 0 = 0"
  by (simp add: crc_table_entry_def crc_shift_zero)

lemma crc_table_entry_1: "crc_table_entry (Suc 0) = 0x1021"
  by (simp add: crc_table_entry_def funpow8 crc_shift_def)

lemma crc_table_entry_double:
  assumes "i < 128"
  shows "crc_table_entry (2 * i) = crc_shift (crc_table_entry i)"
proof -
  have "\<not> bit i 7"
    using assms by (simp add: bit_iff_odd)
  then have "\<not> bit (word_of_nat i :: 16 word) 7"
    by (simp add: bit_of_nat_iff)
  then have nb: "\<not> bit (push_bit 8 (word_of_nat i :: 16 word)) 15"
    by (simp add: bit_push_bit_iff)
  have "push_bit 8 (word_of_nat (2 * i) :: 16 word) = push_bit 1 (push_bit 8 (word_of_nat i))"
    by (simp add: push_bit_eq_mult)
  also have "\<dots> = crc_shift (push_bit 8 (word_of_nat i))"
    using nb by (simp add: crc_shift_def)
  finally show ?thesis
    by (simp add: crc_table_entry_def funpow_swap1)
qed

lemma crc_table_entry_double1:
  "crc_table_entry (Suc (2 * i)) = crc_table_entry (2 * i) XOR 0x1021"
proof -
  have "(word_of_nat (Suc (2 * i)) :: 16 word) = word_of_nat (2 * i) XOR 1"
    by (simp add: xor_one_eq)
  then have "push_bit 8 (word_of_nat (Suc (2 * i)) :: 16 word)
      = push_bit 8 (word_of_nat (2 * i)) XOR push_bit 8 1"
    by (simp add: push_bit_xor)
  then have "crc_table_entry (Suc (2 * i)) = crc_table_entry (2 * i) XOR crc_table_entry 1"
    by (simp add: crc_table_entry_def crc_shift_pow_xor)
  then show ?thesis by (simp add: crc_table_entry_1)
qed

lemma length_table_word: "length table_word = 256"
  by (simp add: table_word_def CRC16_XMODEM_TABLE_def)

lemma table_word_0: "table_word ! 0 = 0"
  by (simp add: table_word_def CRC16_XMODEM_TABLE_def)

lemma table_word_even:
  assumes "i < 128"
  shows "table_word ! (2 * i) = crc_shift (table_word ! i)"
    and "table_word ! Suc (2 * i) = crc_shift (table_word ! i) XOR 0x1021"
proof -
  let ?xs = "take 128 table_word"
  have len: "i < length ?xs" using assms by (simp add: length_table_word)
  have nth: "?xs ! i = table_word ! i" using assms by simp
  from nth_concat_pairs [OF len, of crc_shift "\<lambda>t. crc_shift t XOR 0x1021"]
  show "table_word ! (2 * i) = crc_shift (table_word ! i)"
    and "table_word ! Suc (2 * i) = crc_shift (table_word ! i) XOR 0x1021"
    unfolding nth using table_word_doubling by simp_all
qed

lemma table_word_entry: "i < 256 \<Longrightarrow> table_word ! i = crc_table_entry i"
proof (induction i rule: less_induct)
  case (less i)
  show ?case
  proof (cases "i = 0")
    case True
    then show ?thesis by (simp add: table_word_0 crc_table_entry_0)
  next
    case False
    define j where "j = i div 2"
    have j: "j < i" "j < 128" "j < 256" using False less.prems by (auto simp: j_def)
    have IH: "table_word ! j = crc_table_entry j" using less.IH j by simp
    show ?thesis
    proof (cases "even i")
      case True
      then have i: "i = 2 * j" by (auto simp: j_def)
      show ?thesis
        unfolding i using table_word_even(1) [OF j(2)] crc_table_entry_double [OF j(2)] IH
        by simp
    next
      case False
      then have i: "i = Suc (2 * j)" by (auto simp: j_def elim: oddE)
      show ?thesis
        unfolding i using table_word_even(2) [OF j(2)] crc_table_entry_double [OF j(2)]
          crc_table_entry_double1 [of j] IH
        by simp
    qed
  qed
qed


lemma crc_shift_low_byte:
  "n \<le> 8 \<Longrightarrow> (crc_shift ^^ n) (take_bit 8 c) = push_bit n (take_bit 8 c)"
proof (induction n)
  case 0
  then show ?case by simp
next
  case (Suc n)
  then have "\<not> bit (push_bit n (take_bit 8 c)) 15"
    by (auto simp: bit_push_bit_iff bit_take_bit_iff)
  with Suc show ?case
    by (simp add: crc_shift_def push_bit_eq_mult)
qed

lemma word16_split:
  fixes x :: "16 word"
  shows "x = push_bit 8 (drop_bit 8 x) XOR take_bit 8 x"
  by (rule bit_word_eqI) (auto simp: bit_simps)

lemma unat_drop_bit_8_less:
  fixes x :: "16 word"
  shows "unat (drop_bit 8 x) < 256"
proof -
  have "unat x < 65536"
    using unsigned_less [of x] by simp
  moreover have "unat (drop_bit 8 x) = unat x div 256"
    by (simp add: unat_drop_bit_eq) (simp add: drop_bit_eq_div)
  ultimately show ?thesis by simp
qed

lemma drop_bit_8_xor_byte:
  fixes c :: "16 word" and b :: byte
  shows "drop_bit 8 (c XOR push_bit 8 (ucast b)) = drop_bit 8 c XOR ucast b"
  by (rule bit_word_eqI) (auto simp: bit_simps dest: bit_imp_le_length)

lemma crc16_table_index:
  fixes c :: "16 word" and b :: byte
  shows "unat (drop_bit 8 c XOR ucast b) < 256"
  using unat_drop_bit_8_less [of "c XOR push_bit 8 (ucast b)"]
  by (simp only: drop_bit_8_xor_byte)

lemma crc_byte_table:
  "crc_byte c b = push_bit 8 c XOR table_word ! unat (drop_bit 8 c XOR ucast b)"
proof -
  define x where "x = c XOR push_bit 8 (ucast b :: 16 word)"
  define hi where "hi = drop_bit 8 x"
  have hi: "hi = drop_bit 8 c XOR ucast b"
    unfolding hi_def x_def by (rule drop_bit_8_xor_byte)
  have lo: "take_bit 8 x = take_bit 8 c"
    unfolding x_def by (rule bit_word_eqI) (auto simp: bit_simps)
  have hi_less: "unat hi < 256"
    unfolding hi_def by (rule unat_drop_bit_8_less)
  have split: "x = push_bit 8 hi XOR take_bit 8 x"
    unfolding hi_def by (rule word16_split)
  have "crc_byte c b = (crc_shift ^^ 8) x"
    by (simp add: crc_byte_def x_def)
  also have "\<dots> = (crc_shift ^^ 8) (push_bit 8 hi XOR take_bit 8 x)"
    by (rule arg_cong [OF split])
  also have "\<dots> = (crc_shift ^^ 8) (push_bit 8 hi) XOR (crc_shift ^^ 8) (take_bit 8 c)"
    by (simp add: crc_shift_pow_xor lo)
  also have "(crc_shift ^^ 8) (push_bit 8 hi) = crc_table_entry (unat hi)"
    by (simp add: crc_table_entry_def)
  also have "\<dots> = table_word ! unat hi"
    using table_word_entry [OF hi_less] by simp
  also have "(crc_shift ^^ 8) (take_bit 8 c) = push_bit 8 (take_bit 8 c)"
    by (rule crc_shift_low_byte) simp
  also have "push_bit 8 (take_bit 8 c) = push_bit 8 c"
    by (rule bit_word_eqI) (auto simp: bit_simps)
  finally show ?thesis
    by (simp add: hi ac_simps)
qed


lemma table_range: "\<forall>t \<in> set CRC16_XMODEM_TABLE. 0 \<le> t \<and> t < 65536"
  by (simp add: CRC16_XMODEM_TABLE_def)

lemma table_nth_uint:
  assumes "i < 256"
  shows "CRC16_XMODEM_TABLE ! i = uint (table_word ! i)"
proof -
  have len: "i < length CRC16_XMODEM_TABLE"
    using assms by (simp add: CRC16_XMODEM_TABLE_def)
  then have "CRC16_XMODEM_TABLE ! i \<in> set CRC16_XMODEM_TABLE"
    by (rule nth_mem)
  with table_range have "0 \<le> CRC16_XMODEM_TABLE ! i" "CRC16_XMODEM_TABLE ! i < 65536"
    by auto
  then have "take_bit 16 (CRC16_XMODEM_TABLE ! i) = CRC16_XMODEM_TABLE ! i"
    by (simp add: take_bit_int_eq_self)
  then show ?thesis
    using len by (simp add: table_word_def uint_word_of_int_eq)
qed

lemma bit_int_255: "bit (0xff::int) n \<longleftrightarrow> n < 8"
proof -
  have "(0xff::int) = mask 8" by (simp add: mask_eq_exp_minus_1)
  then show ?thesis by (simp only: bit_mask_iff) simp
qed

lemma bit_int_ff00: "bit (0xff00::int) n \<longleftrightarrow> 8 \<le> n \<and> n < 16"
proof -
  have "(0xff00::int) = push_bit 8 (mask 8)"
    by (simp add: mask_eq_exp_minus_1 push_bit_eq_mult)
  then show ?thesis by (simp only: bit_push_bit_iff bit_mask_iff) auto
qed

lemma crc16_index:
  "nat (((drop_bit 8 crc) AND 0xff) XOR uint (b :: byte))
     = unat (drop_bit 8 (word_of_int crc :: 16 word) XOR ucast b)"
proof -
  have "uint (drop_bit 8 (word_of_int crc :: 16 word) XOR ucast b)
      = ((drop_bit 8 crc) AND 0xff) XOR uint b"
    by (rule bit_eqI) (auto simp: bit_simps bit_int_255 dest: bit_imp_le_length)
  then show ?thesis by (metis unat_eq_nat_uint)
qed

lemma crc16_lookup_in_range:
  "nat (((drop_bit 8 crc) AND 0xff) XOR uint (b :: byte)) < length CRC16_XMODEM_TABLE"
proof -
  have "length CRC16_XMODEM_TABLE = 256"
    by (simp add: CRC16_XMODEM_TABLE_def)
  then show ?thesis
    using crc16_table_index [of "word_of_int crc" b] by (simp only: crc16_index)
qed

lemma crc16_high:
  "(push_bit 8 crc) AND 0xff00 = uint (push_bit 8 (word_of_int crc :: 16 word))"
  by (rule bit_eqI) (auto simp: bit_simps bit_int_ff00)

lemma crc16_step_uint:
  "((push_bit 8 crc) AND 0xff00) XOR
     (CRC16_XMODEM_TABLE ! nat (((drop_bit 8 crc) AND 0xff) XOR uint b))
   = uint (crc_byte (word_of_int crc) b)"
proof -
  let ?w = "word_of_int crc :: 16 word"
  let ?i = "unat (drop_bit 8 ?w XOR ucast b)"
  have "?i < 256"
    by (rule crc16_table_index)
  then have "CRC16_XMODEM_TABLE ! ?i = uint (table_word ! ?i)"
    by (rule table_nth_uint)
  then show ?thesis
    by (simp only: crc16_index crc16_high crc_byte_table uint_xor)
qed

lemma crc16_loop_word:
  "word_of_int (crc16_loop data crc) = crc16_xmodem_ref data (word_of_int crc)"
  unfolding crc16_xmodem_ref_def
proof (induction data arbitrary: crc)
  case Nil
  show ?case by simp
next
  case (Cons b data)
  show ?case
    by (simp only: crc16_loop.simps Cons.IH crc16_step_uint foldl_Cons word_of_int_uint)
qed

lemma crc16_refines: "crc16 data crc = uint (crc16_xmodem_ref data (word_of_int crc))"
proof -
  have "(0xffff::int) = mask 16"
    by (simp add: mask_eq_exp_minus_1)
  then have "crc16 data crc = take_bit 16 (crc16_loop data crc)"
    by (simp only: crc16_def take_bit_eq_mask)
  also have "\<dots> = uint (word_of_int (crc16_loop data crc) :: 16 word)"
    by (simp add: uint_word_of_int_eq)
  finally show ?thesis
    by (simp only: crc16_loop_word)
qed

lemma crc16_append: "crc16 (a @ b) c = crc16 b (crc16 a c)"
  by (simp add: crc16_refines crc16_xmodem_ref_def)

lemma crc16_foldl_chunks:
  "foldl (\<lambda>crc chunk. crc16 chunk crc) (crc16 pre c) chunks = crc16 (pre @ concat chunks) c"
proof (induction chunks arbitrary: pre)
  case Nil
  show ?case by simp
next
  case (Cons x xs)
  have "foldl (\<lambda>crc chunk. crc16 chunk crc) (crc16 pre c) (x # xs)
      = foldl (\<lambda>crc chunk. crc16 chunk crc) (crc16 (pre @ x) c) xs"
    by (simp add: crc16_append)
  also have "\<dots> = crc16 ((pre @ x) @ concat xs) c"
    by (rule Cons.IH)
  finally show ?case by simp
qed

lemma crc16_Nil_0: "crc16 [] 0 = 0"
  by (simp add: crc16_def)

text \<open>
  Claim C9. The checksum of a concatenation is the checksum of the second part started
  from the checksum of the first, for every starting value; so chaining \<open>crc16\<close> over
  a list of chunks from 0 gives the checksum of their concatenation.
\<close>

theorem crc16_chaining:
  "crc16 (a @ b) c = crc16 b (crc16 a c) \<and>
   foldl (\<lambda>crc chunk. crc16 chunk crc) 0 chunks = crc16 (concat chunks) 0"
  using crc16_foldl_chunks [of "[]" 0 chunks] by (simp add: crc16_append crc16_Nil_0)

text \<open>
  Claim C8. The table-driven \<open>crc16\<close> computes the bit-by-bit CRC-16/XMODEM of its
  input from the given starting value (of which only the low 16 bits count), for every
  byte sequence; over the ASCII digits 1 to 9 from 0 it is \<open>0x31C3\<close>.
\<close>

theorem crc16_is_xmodem:
  "crc16 data crc = uint (crc16_xmodem_ref data (word_of_int crc)) \<and>
   crc16 data (uint c) = uint (crc16_xmodem_ref data c) \<and>
   crc16 [0x31, 0x32, 0x33, 0x34, 0x35, 0x36, 0x37, 0x38, 0x39] 0 = 0x31C3"
proof -
  have "crc16 [0x31, 0x32, 0x33, 0x34, 0x35, 0x36, 0x37, 0x38, 0x39] 0 = 0x31C3"
    by (simp add: crc16_def CRC16_XMODEM_TABLE_def)
  then show ?thesis
    by (simp add: crc16_refines)
qed

section \<open>Record constructors\<close>

lemma be16_decode:
  assumes "0 \<le> v" "v \<le> 0xFFFF"
  shows "uint (word_of_int (v div 256) :: byte) * 256 + uint (word_of_int (v mod 256) :: byte) = v"
proof -
  have "v div 256 < 256" using assms by simp
  moreover have "0 \<le> v div 256" using assms by simp
  ultimately have "take_bit 8 (v div 256) = v div 256"
    by (simp add: take_bit_int_eq_self)
  moreover have "take_bit 8 (v mod 256) = v mod 256"
    by (simp add: take_bit_int_eq_self)
  ultimately show ?thesis
    by (simp add: uint_word_of_int_eq)
qed

lemma bin_ident_bytes:
  "0 \<le> v \<Longrightarrow> v \<le> 0xFFFF \<Longrightarrow>
     bin_ident v = Some [0x24, 3, 0x30, word_of_int (v div 256), word_of_int (v mod 256)]"
  by (simp add: bin_ident_def pack_B_def pack_H_def FSB_def)

lemma bin_setup_bytes:
  "0 \<le> k \<Longrightarrow> k \<le> 0xFFFF \<Longrightarrow> 0 \<le> bank \<Longrightarrow> bank \<le> 0xFF \<Longrightarrow>
     bin_setup bank k =
       Some [0x24, 4, 0x31, word_of_int (k div 256), word_of_int (k mod 256), word_of_int bank]"
  by (simp add: bin_setup_def pack_B_def pack_H_def FSB_def)

lemma bin_erase_bytes:
  "0 \<le> a \<Longrightarrow> a \<le> 0xFFFF \<Longrightarrow> length data \<le> 252 \<Longrightarrow>
     bin_erase a data =
       Some ([0x24, word_of_int (3 + int (length data)), 0x32,
              word_of_int (a div 256), word_of_int (a mod 256)] @ data)"
  by (simp add: bin_erase_def pack_B_def pack_H_def FSB_def)

lemma bin_write_bytes:
  "0 \<le> a \<Longrightarrow> a \<le> 0xFFFF \<Longrightarrow> length data \<le> 252 \<Longrightarrow>
     bin_write a data =
       Some ([0x24, word_of_int (3 + int (length data)), 0x33,
              word_of_int (a div 256), word_of_int (a mod 256)] @ data)"
  by (simp add: bin_write_def pack_B_def pack_H_def FSB_def)

lemma bin_verify_bytes:
  "0 \<le> a \<Longrightarrow> a \<le> 0xFFFF \<Longrightarrow> 0 \<le> e \<Longrightarrow> e \<le> 0xFFFF \<Longrightarrow> 0 \<le> c \<Longrightarrow> c \<le> 0xFFFF \<Longrightarrow>
     bin_verify a e c =
       Some [0x24, 7, 0x34, word_of_int (a div 256), word_of_int (a mod 256),
             word_of_int (e div 256), word_of_int (e mod 256),
             word_of_int (c div 256), word_of_int (c mod 256)]"
  by (simp add: bin_verify_def pack_B_def pack_H_def FSB_def)

lemma bin_lock_bytes:
  "0 \<le> v \<Longrightarrow> v \<le> 0xFFFF \<Longrightarrow>
     bin_lock v = Some [0x24, 3, 0x35, word_of_int (v div 256), word_of_int (v mod 256)]"
  by (simp add: bin_lock_def pack_B_def pack_H_def FSB_def)

lemma bin_runapp_bytes:
  "0 \<le> v \<Longrightarrow> v \<le> 0xFFFF \<Longrightarrow>
     bin_runapp v = Some [0x24, 3, 0x36, word_of_int (v div 256), word_of_int (v mod 256)]"
  by (simp add: bin_runapp_def pack_B_def pack_H_def FSB_def)

text \<open>
  Claim C7. For field values in range (16-bit values \<open>v\<close>, \<open>w\<close> and \<open>c\<close>, an 8-bit
  \<open>bank\<close>, at most 252 data bytes) every constructor returns the marker \<open>0x24\<close>, the
  length byte, the type code and the payload with the high byte of each 16-bit field
  first; the length byte counts the type byte and the payload; the default keys are
  \<open>0xA5F1\<close> and the default option is 0.
\<close>

theorem record_layout:
  assumes "0 \<le> v" "v \<le> 0xFFFF" "0 \<le> w" "w \<le> 0xFFFF" "0 \<le> c" "c \<le> 0xFFFF"
    and "0 \<le> bank" "bank \<le> 0xFF" "length data \<le> 252"
  shows "bin_ident v = Some [0x24, 3, 0x30, word_of_int (v div 256), word_of_int (v mod 256)]
    \<and> bin_setup bank v =
        Some [0x24, 4, 0x31, word_of_int (v div 256), word_of_int (v mod 256), word_of_int bank]
    \<and> bin_setup bank keys_default = Some [0x24, 4, 0x31, 0xA5, 0xF1, word_of_int bank]
    \<and> bin_erase v data =
        Some ([0x24, word_of_int (3 + int (length data)), 0x32,
               word_of_int (v div 256), word_of_int (v mod 256)] @ data)
    \<and> bin_erase v [] = Some [0x24, 3, 0x32, word_of_int (v div 256), word_of_int (v mod 256)]
    \<and> bin_write v data =
        Some ([0x24, word_of_int (3 + int (length data)), 0x33,
               word_of_int (v div 256), word_of_int (v mod 256)] @ data)
    \<and> bin_verify v w c =
        Some [0x24, 7, 0x34, word_of_int (v div 256), word_of_int (v mod 256),
              word_of_int (w div 256), word_of_int (w mod 256),
              word_of_int (c div 256), word_of_int (c mod 256)]
    \<and> bin_lock v = Some [0x24, 3, 0x35, word_of_int (v div 256), word_of_int (v mod 256)]
    \<and> bin_runapp v = Some [0x24, 3, 0x36, word_of_int (v div 256), word_of_int (v mod 256)]
    \<and> bin_runapp option_default = Some [0x24, 3, 0x36, 0, 0]
    \<and> uint (word_of_int (v div 256) :: byte) * 256 + uint (word_of_int (v mod 256) :: byte) = v
    \<and> uint (word_of_int (3 + int (length data)) :: byte) = 1 + (2 + int (length data))
    \<and> uint (word_of_int bank :: byte) = bank"
proof -
  have "take_bit 8 (3 + int (length data)) = 3 + int (length data)"
    using assms(9) by (simp add: take_bit_int_eq_self)
  then have len: "uint (word_of_int (3 + int (length data)) :: byte) = 1 + (2 + int (length data))"
    by (simp only: uint_word_of_int_eq) simp
  have bank: "uint (word_of_int bank :: byte) = bank"
    using assms(7,8) by (simp add: uint_word_of_int_eq take_bit_int_eq_self)
  have keys: "bin_setup bank keys_default = Some [0x24, 4, 0x31, 0xA5, 0xF1, word_of_int bank]"
    using assms(7,8) by (simp add: bin_setup_bytes keys_default_def)
  have run: "bin_runapp option_default = Some [0x24, 3, 0x36, 0, 0]"
    by (simp add: bin_runapp_bytes option_default_def)
  have e0: "bin_erase v [] = Some [0x24, 3, 0x32, word_of_int (v div 256), word_of_int (v mod 256)]"
    using assms(1,2) by (simp add: bin_erase_bytes)
  show ?thesis
    using assms
    by (simp only: bin_ident_bytes bin_setup_bytes bin_erase_bytes bin_write_bytes
        bin_verify_bytes bin_lock_bytes bin_runapp_bytes be16_decode len bank keys run e0
        simp_thms)
qed

theorem record_layout_witness:
  "bin_ident 0x1234 = Some [0x24, 3, 0x30, 0x12, 0x34]
    \<and> bin_setup 1 0x1234 = Some [0x24, 4, 0x31, 0x12, 0x34, 1]
    \<and> bin_setup 1 keys_default = Some [0x24, 4, 0x31, 0xA5, 0xF1, 1]
    \<and> bin_erase 0x1234 [0xAA, 0xBB] = Some [0x24, 5, 0x32, 0x12, 0x34, 0xAA, 0xBB]
    \<and> bin_erase 0x1234 [] = Some [0x24, 3, 0x32, 0x12, 0x34]
    \<and> bin_write 0x1234 [0xAA, 0xBB] = Some [0x24, 5, 0x33, 0x12, 0x34, 0xAA, 0xBB]
    \<and> bin_verify 0x1234 0x5678 0x9ABC = Some [0x24, 7, 0x34, 0x12, 0x34, 0x56, 0x78, 0x9A, 0xBC]
    \<and> bin_lock 0x1234 = Some [0x24, 3, 0x35, 0x12, 0x34]
    \<and> bin_runapp 0x1234 = Some [0x24, 3, 0x36, 0x12, 0x34]
    \<and> bin_runapp option_default = Some [0x24, 3, 0x36, 0, 0]"
  using record_layout [of "0x1234" "0x5678" "0x9ABC" 1 "[0xAA, 0xBB]"]
  by simp

section \<open>Device maps and the region planner\<close>

lemma regions_unknown:
  assumes "type \<notin> {Some ''bb2'', Some ''bb50'', Some ''bb51'', Some ''bb52'', Some ''sb2'', Some ''ub1''}"
  shows "regions type = [(0x0000, 0xFBFF, 512)]"
  using assms by (simp add: regions_def region_table_def)

text \<open>
  Claim C1, as amended. For a map name that is none of the six known device families,
  \<open>regions\<close> returns, without raising, the single default region from \<open>0x0000\<close> to
  \<open>0xFBFF\<close> inclusive with page size 512.
\<close>

theorem regions_default:
  assumes "type \<notin> {Some ''bb2'', Some ''bb50'', Some ''bb51'', Some ''bb52'', Some ''sb2'', Some ''ub1''}"
  shows "regions type = [(0x0000, 0xFBFF, 512)]"
  using assms by (rule regions_unknown)

theorem regions_default_witness:
  "None \<notin> {Some ''bb2'', Some ''bb50'', Some ''bb51'', Some ''bb52'', Some ''sb2'', Some ''ub1''}
   \<and> regions None = [(0x0000, 0xFBFF, 512)]"
  using regions_default [of None] by simp

text \<open>
  Claim C1 as stated fails: the default region of an unknown map name does not end at
  \<open>0xFFFF\<close>.
\<close>

theorem regions_default_counterexample:
  "fst (snd (hd (regions (Some ''efm8'')))) \<noteq> 0xFFFF"
  by (simp add: regions_def region_table_def)

lemma get_regions_loop_filter:
  "get_regions_loop org top' rs =
     map (\<lambda>(start, stop, page). (max org start, min top' stop, page))
       (filter (\<lambda>(start, stop, page). max org start < min top' stop) rs)"
  by (induction org top' rs rule: get_regions_loop.induct) simp_all

text \<open>
  Claim C6. \<open>get_regions\<close> yields, in the order of the device map, the clipped triple of
  every declared region whose clipped start is strictly below its clipped end, and
  nothing else; the window \<open>[0x0000, 0x3E00]\<close> over the two regions of \<open>bb2\<close> yields the
  single region \<open>(0x0000, 0x3DFF, 512)\<close>.
\<close>

theorem get_regions_plan:
  "get_regions org top' type =
     map (\<lambda>(start, stop, page). (max org start, min top' stop, page))
       (filter (\<lambda>(start, stop, page). max org start < min top' stop) (regions type))
   \<and> regions (Some ''bb2'') = [(0x0000, 0x3DFF, 512), (0xF800, 0xFBBF, 64)]
   \<and> get_regions 0x0000 0x3E00 (Some ''bb2'') = [(0x0000, 0x3DFF, 512)]"
proof -
  have "regions (Some ''bb2'') = [(0x0000, 0x3DFF, 512), (0xF800, 0xFBBF, 64)]"
    by (simp add: regions_def region_table_def)
  then show ?thesis
    by (simp add: get_regions_def get_regions_loop_filter)
qed

section \<open>Ranges, division and sequences of records\<close>

lemma range_up_map:
  "0 < step \<Longrightarrow>
     range_up start stop step =
       map (\<lambda>k. start + int k * step) [0..<nat ((stop - start + step - 1) div step)]"
proof (induction start stop step rule: range_up.induct)
  case (1 start stop step)
  show ?case
  proof (cases "start < stop")
    case False
    with 1(2) have "(stop - start + step - 1) div step \<le> 0"
      by (metis add.commute add_diff_eq diff_add_eq_diff_diff_swap
          diff_ge_0_iff_ge leI le_add_same_cancel1 less_iff_succ_less_eq
          pos_imp_zdiv_pos_iff)
    then show ?thesis
      using False by (simp add: range_up.simps [of start stop step])
  next
    case True
    define m where "m = nat ((stop - start - 1) div step)"
    have "(stop - start + step - 1) div step = (stop - start - 1 + step) div step"
      by (simp add: algebra_simps)
    also have "\<dots> = (stop - start - 1) div step + 1"
      using 1(2) div_add_self2 [of step "stop - start - 1"] by simp
    finally have d: "(stop - start + step - 1) div step = (stop - start - 1) div step + 1" .
    have "0 \<le> (stop - start - 1) div step"
      using True 1(2) by (simp add: pos_imp_zdiv_nonneg_iff)
    then have n: "nat ((stop - start + step - 1) div step) = Suc m"
      unfolding d m_def by (simp add: Suc_nat_eq_nat_zadd1)
    have IH: "range_up (start + step) stop step =
        map (\<lambda>k. start + step + int k * step) [0..<m]"
      using 1(1) [OF conjI [OF 1(2) True] 1(2)] by (simp add: m_def algebra_simps)
    have "range_up start stop step = start # range_up (start + step) stop step"
      using True 1(2) by (simp add: range_up.simps [of start stop step])
    also have "\<dots> = map (\<lambda>k. start + int k * step) [0..<Suc m]"
      unfolding IH by (simp add: map_upt_Suc del: upt_Suc) (simp add: algebra_simps)
    finally show ?thesis
      by (simp only: n)
  qed
qed

lemma range_up_inclusive:
  assumes "0 < step"
  shows "range_up start (stop + 1) step =
           map (\<lambda>k. start + int k * step) [0..<nat ((stop - start) div step + 1)]"
proof -
  have "(stop + 1 - start + step - 1) div step = (stop - start + step) div step"
    by (simp add: algebra_simps)
  also have "\<dots> = (stop - start) div step + 1"
    using assms div_add_self2 [of step "stop - start"] by simp
  finally show ?thesis
    using range_up_map [OF assms, of start "stop + 1"] by simp
qed

lemma div_mult_le_int:
  fixes x :: int
  assumes "0 < s"
  shows "(x div s) * s \<le> x"
proof -
  have "(x div s) * s = x - x mod s"
    by (simp add: minus_mod_eq_div_mult)
  moreover have "0 \<le> x mod s"
    using assms by simp
  ultimately show ?thesis by simp
qed

lemma range_up_inclusive_bounds:
  assumes "0 < step" "a \<in> set (range_up start (stop + 1) step)"
  shows "start \<le> a \<and> a \<le> stop \<and> (a - start) mod step = 0"
proof -
  from assms(2) obtain k where k: "k < nat ((stop - start) div step + 1)" "a = start + int k * step"
    unfolding range_up_inclusive [OF assms(1)] by auto
  then have "int k \<le> (stop - start) div step" by simp
  then have "int k * step \<le> ((stop - start) div step) * step"
    using assms(1) by (simp add: mult_right_mono)
  also have "\<dots> \<le> stop - start"
    using assms(1) by (rule div_mult_le_int)
  finally have "a \<le> stop"
    using k(2) by simp
  moreover have "0 \<le> int k * step"
    using assms(1) by simp
  then have "start \<le> a"
    using k(2) by simp
  moreover have "(a - start) mod step = 0"
    using k(2) by simp
  ultimately show ?thesis by simp
qed

lemma int_truediv_nonneg:
  "0 \<le> a \<Longrightarrow> 0 < b \<Longrightarrow> int_truediv a b = Some (a div b)"
  by (simp add: int_truediv_def sgn_if)

lemma page_floor_bounds:
  fixes a page :: int
  assumes "0 \<le> a" "0 < page"
  shows "0 \<le> (a div page) * page" "(a div page) * page \<le> a" "((a div page) * page) mod page = 0"
proof -
  have "0 \<le> a div page"
    using assms by (simp add: pos_imp_zdiv_nonneg_iff)
  then show "0 \<le> (a div page) * page"
    using assms(2) by simp
  show "(a div page) * page \<le> a"
    using assms(2) by (rule div_mult_le_int)
  show "((a div page) * page) mod page = 0"
    by simp
qed

lemma crc16_range: "0 \<le> crc16 data crc \<and> crc16 data crc \<le> 0xFFFF"
proof -
  have "uint (crc16_xmodem_ref data (word_of_int crc)) < 2 ^ LENGTH(16)"
    by (rule uint_lt2p)
  then have "uint (crc16_xmodem_ref data (word_of_int crc)) \<le> 0xFFFF"
    by simp
  then show ?thesis
    by (simp only: crc16_refines uint_ge_0 simp_thms)
qed

lemma bin_records_append:
  "bin_records (xs @ ys) = do { a \<leftarrow> bin_records xs; b \<leftarrow> bin_records ys; Some (a @ b) }"
  by (induction xs) (simp_all split: Option.bind_split)

lemma bin_records_append_Some:
  "bin_records xs = Some a \<Longrightarrow> bin_records ys = Some b \<Longrightarrow> bin_records (xs @ ys) = Some (a @ b)"
  by (simp add: bin_records_append)

section \<open>The range-erase translator\<close>

lemma crc16_ff_512: "crc16 (replicate 512 0xFF) 0 = 0x7FA1"
proof -
  define ff32 :: "byte list" where "ff32 = [0xFF, 0xFF, 0xFF, 0xFF, 0xFF, 0xFF, 0xFF, 0xFF, 0xFF, 0xFF, 0xFF, 0xFF, 0xFF, 0xFF, 0xFF, 0xFF, 0xFF, 0xFF, 0xFF, 0xFF, 0xFF, 0xFF, 0xFF, 0xFF, 0xFF, 0xFF, 0xFF, 0xFF, 0xFF, 0xFF, 0xFF, 0xFF]"
  have s0: "crc16 ff32 0x0000 = 0x84B4"
    unfolding ff32_def by (simp add: crc16_def CRC16_XMODEM_TABLE_def)
  have s1: "crc16 ff32 0x84B4 = 0x278E"
    unfolding ff32_def by (simp add: crc16_def CRC16_XMODEM_TABLE_def)
  have s2: "crc16 ff32 0x278E = 0x8A16"
    unfolding ff32_def by (simp add: crc16_def CRC16_XMODEM_TABLE_def)
  have s3: "crc16 ff32 0x8A16 = 0xEDA9"
    unfolding ff32_def by (simp add: crc16_def CRC16_XMODEM_TABLE_def)
  have s4: "crc16 ff32 0xEDA9 = 0xEAFD"
    unfolding ff32_def by (simp add: crc16_def CRC16_XMODEM_TABLE_def)
  have s5: "crc16 ff32 0xEAFD = 0x9131"
    unfolding ff32_def by (simp add: crc16_def CRC16_XMODEM_TABLE_def)
  have s6: "crc16 ff32 0x9131 = 0x7558"
    unfolding ff32_def by (simp add: crc16_def CRC16_XMODEM_TABLE_def)
  have s7: "crc16 ff32 0x7558 = 0x1AC7"
    unfolding ff32_def by (simp add: crc16_def CRC16_XMODEM_TABLE_def)
  have s8: "crc16 ff32 0x1AC7 = 0x30D1"
    unfolding ff32_def by (simp add: crc16_def CRC16_XMODEM_TABLE_def)
  have s9: "crc16 ff32 0x30D1 = 0x8689"
    unfolding ff32_def by (simp add: crc16_def CRC16_XMODEM_TABLE_def)
  have s10: "crc16 ff32 0x8689 = 0x96A9"
    unfolding ff32_def by (simp add: crc16_def CRC16_XMODEM_TABLE_def)
  have s11: "crc16 ff32 0x96A9 = 0x955C"
    unfolding ff32_def by (simp add: crc16_def CRC16_XMODEM_TABLE_def)
  have s12: "crc16 ff32 0x955C = 0xFE13"
    unfolding ff32_def by (simp add: crc16_def CRC16_XMODEM_TABLE_def)
  have s13: "crc16 ff32 0xFE13 = 0x7046"
    unfolding ff32_def by (simp add: crc16_def CRC16_XMODEM_TABLE_def)
  have s14: "crc16 ff32 0x7046 = 0x7079"
    unfolding ff32_def by (simp add: crc16_def CRC16_XMODEM_TABLE_def)
  have s15: "crc16 ff32 0x7079 = 0x7FA1"
    unfolding ff32_def by (simp add: crc16_def CRC16_XMODEM_TABLE_def)
  have r32: "replicate 32 (0xFF :: byte) = ff32"
    unfolding ff32_def by (simp add: numeral_eq_Suc)
  have "(512 :: nat) = 32 + 32 + 32 + 32 + 32 + 32 + 32 + 32 + 32 + 32 + 32 + 32 + 32 + 32 + 32 + 32"
    by simp
  then have "replicate 512 (0xFF :: byte) = ff32 @ ff32 @ ff32 @ ff32 @ ff32 @ ff32 @ ff32 @ ff32 @ ff32 @ ff32 @ ff32 @ ff32 @ ff32 @ ff32 @ ff32 @ ff32"
    by (simp only: replicate_add r32 append_assoc)
  then show ?thesis
    by (simp only: crc16_append s0 s1 s2 s3 s4 s5 s6 s7 s8 s9 s10 s11 s12 s13 s14 s15)
qed

lemma crc16_ref_ff_512: "crc16_xmodem_ref (replicate 512 0xFF) 0 = 0x7FA1"
proof -
  have "uint (crc16_xmodem_ref (replicate 512 0xFF) 0) = 0x7FA1"
    using crc16_refines [of "replicate 512 0xFF" 0] by (simp add: crc16_ff_512)
  then have "word_of_int (uint (crc16_xmodem_ref (replicate 512 0xFF) 0)) = (word_of_int 0x7FA1 :: 16 word)"
    by (rule arg_cong)
  then show ?thesis by simp
qed

lemma crc16_as_ref: "crc16 data 0 = uint (crc16_xmodem_ref data 0)"
  using crc16_refines [of data 0] by simp

lemma erase2boot_loop_bytes:
  assumes "\<forall>a \<in> set addrs. 0 \<le> a \<and> a \<le> 0xFFFF"
  shows "erase2boot_loop addrs brec =
           Some (brec @ concat (map (\<lambda>a. [0x24, 3, 0x32, word_of_int (a div 256),
                                              word_of_int (a mod 256)]) addrs))"
  using assms
proof (induction addrs arbitrary: brec)
  case Nil
  show ?case by simp
next
  case (Cons a addrs)
  then have a: "0 \<le> a" "a \<le> 0xFFFF" by simp_all
  from a have e: "bin_erase a [] = Some [0x24, 3, 0x32, word_of_int (a div 256), word_of_int (a mod 256)]"
    by (simp add: bin_erase_bytes)
  from Cons.prems have "\<forall>a \<in> set addrs. 0 \<le> a \<and> a \<le> 0xFFFF" by simp
  from Cons.IH [OF this] e show ?case by simp
qed

lemma erase2boot_bytes:
  assumes "0 \<le> start" "start \<le> stop" "stop \<le> 0xFFFF" "1 \<le> page"
  shows "erase2boot brec start stop page =
     Some (brec
       @ concat (map (\<lambda>k. [0x24, 3, 0x32,
                    word_of_int (((start div page) * page + int k * page) div 256),
                    word_of_int (((start div page) * page + int k * page) mod 256)])
           [0..<nat ((stop - (start div page) * page) div page + 1)])
       @ [0x24, 7, 0x34,
          word_of_int (start div 256), word_of_int (start mod 256),
          word_of_int (stop div 256), word_of_int (stop mod 256),
          word_of_int (uint (crc16_xmodem_ref (replicate (nat (stop - start + 1)) 0xFF) 0) div 256),
          word_of_int (uint (crc16_xmodem_ref (replicate (nat (stop - start + 1)) 0xFF) 0) mod 256)])"
proof -
  define page_start where "page_start = (start div page) * page"
  define addrs where "addrs = range_up page_start (stop + 1) page"
  define crc where "crc = crc16 (replicate (nat (stop - start + 1)) 0xFF) 0"
  have page: "0 < page" using assms(4) by simp
  have q: "int_truediv start page = Some (start div page)"
    using assms(1) page by (rule int_truediv_nonneg)
  have ps: "0 \<le> page_start" "page_start \<le> start"
    unfolding page_start_def using page_floor_bounds [OF assms(1) page] by simp_all
  have r: "py_range page_start (stop + 1) page = Some addrs"
    using page by (simp add: py_range_def addrs_def)
  have addrs: "addrs = map (\<lambda>k. page_start + int k * page)
                         [0..<nat ((stop - page_start) div page + 1)]"
    unfolding addrs_def using page by (rule range_up_inclusive)
  have "\<forall>a \<in> set addrs. 0 \<le> a \<and> a \<le> 0xFFFF"
  proof
    fix a assume "a \<in> set addrs"
    then have "page_start \<le> a \<and> a \<le> stop \<and> (a - page_start) mod page = 0"
      unfolding addrs_def using page by (simp add: range_up_inclusive_bounds)
    then show "0 \<le> a \<and> a \<le> 0xFFFF"
      using ps assms(3) by simp
  qed
  then have loop: "erase2boot_loop addrs brec =
           Some (brec @ concat (map (\<lambda>a. [0x24, 3, 0x32, word_of_int (a div 256),
                                              word_of_int (a mod 256)]) addrs))"
    by (rule erase2boot_loop_bytes)
  have c: "0 \<le> crc" "crc \<le> 0xFFFF"
    unfolding crc_def using crc16_range by simp_all
  have v: "bin_verify start stop crc =
      Some [0x24, 7, 0x34, word_of_int (start div 256), word_of_int (start mod 256),
            word_of_int (stop div 256), word_of_int (stop mod 256),
            word_of_int (crc div 256), word_of_int (crc mod 256)]"
    using assms(1-3) c by (simp add: bin_verify_bytes)
  have crc: "crc = uint (crc16_xmodem_ref (replicate (nat (stop - start + 1)) 0xFF) 0)"
    unfolding crc_def by (rule crc16_as_ref)
  have "erase2boot brec start stop page =
      Some (brec @ concat (map (\<lambda>a. [0x24, 3, 0x32, word_of_int (a div 256),
                                         word_of_int (a mod 256)]) addrs)
            @ [0x24, 7, 0x34, word_of_int (start div 256), word_of_int (start mod 256),
               word_of_int (stop div 256), word_of_int (stop mod 256),
               word_of_int (crc div 256), word_of_int (crc mod 256)])"
    using q r loop v by (simp add: erase2boot_def page_start_def crc_def)
  then show ?thesis
    unfolding addrs crc page_start_def by (simp add: comp_def)
qed

text \<open>
  Claim C10. For 16-bit addresses \<open>start \<le> stop\<close> and a page size of at least 1,
  \<open>erase2boot\<close> appends exactly these bytes: for each address from
  \<open>floor(start/page)*page\<close> up to \<open>stop\<close> in steps of \<open>page\<close> the five bytes of an Erase
  record without data (marker \<open>0x24\<close>, length 3, type \<open>0x32\<close>, the address high byte
  first), then the nine bytes of one Verify record (marker, length 7, type \<open>0x34\<close>,
  \<open>start\<close>, \<open>stop\<close> and the checksum, each high byte first), where the checksum is the
  bit-level CRC-16/XMODEM, from 0, of \<open>stop - start + 1\<close> bytes \<open>0xFF\<close>. For \<open>start = 0\<close>,
  \<open>stop = 511\<close>, \<open>page = 512\<close> these are one Erase record at address 0 and the Verify
  record with the checksum \<open>0x7FA1\<close> of 512 bytes \<open>0xFF\<close>.
\<close>

theorem erase2boot_erases_range:
  assumes "0 \<le> start" "start \<le> stop" "stop \<le> 0xFFFF" "1 \<le> page"
  shows "erase2boot brec start stop page =
     Some (brec
       @ concat (map (\<lambda>k. [0x24, 3, 0x32,
                    word_of_int (((start div page) * page + int k * page) div 256),
                    word_of_int (((start div page) * page + int k * page) mod 256)])
           [0..<nat ((stop - (start div page) * page) div page + 1)])
       @ [0x24, 7, 0x34,
          word_of_int (start div 256), word_of_int (start mod 256),
          word_of_int (stop div 256), word_of_int (stop mod 256),
          word_of_int (uint (crc16_xmodem_ref (replicate (nat (stop - start + 1)) 0xFF) 0) div 256),
          word_of_int (uint (crc16_xmodem_ref (replicate (nat (stop - start + 1)) 0xFF) 0) mod 256)])
   \<and> crc16_xmodem_ref (replicate 512 0xFF) 0 = 0x7FA1
   \<and> erase2boot brec 0 511 512 =
       Some (brec @ [0x24, 3, 0x32, 0x00, 0x00,
                     0x24, 7, 0x34, 0x00, 0x00, 0x01, 0xFF, 0x7F, 0xA1])"
proof -
  have "erase2boot brec 0 511 512 =
       Some (brec @ [0x24, 3, 0x32, 0x00, 0x00,
                     0x24, 7, 0x34, 0x00, 0x00, 0x01, 0xFF, 0x7F, 0xA1])"
    using erase2boot_bytes [of 0 511 512 brec] by (simp add: crc16_ref_ff_512)
  with erase2boot_bytes [OF assms, of brec] crc16_ref_ff_512 show ?thesis
    by simp
qed

theorem erase2boot_erases_range_witness:
  "(0::int) \<le> 0x0100 \<and> (0x0100::int) \<le> 0x0102 \<and> (0x0102::int) \<le> 0xFFFF \<and> (1::int) \<le> 2
   \<and> erase2boot [] 0x0100 0x0102 2 =
       Some [0x24, 3, 0x32, 0x01, 0x00,
             0x24, 3, 0x32, 0x01, 0x02,
             0x24, 7, 0x34, 0x01, 0x00, 0x01, 0x02, 0xD2, 0x6C]"
proof -
  have "crc16 [0xFF, 0xFF, 0xFF] 0 = 0xD26C"
    by (simp add: crc16_def CRC16_XMODEM_TABLE_def)
  then have "uint (crc16_xmodem_ref [0xFF, 0xFF, 0xFF] 0) = 0xD26C"
    by (simp add: crc16_as_ref)
  then show ?thesis
    using erase2boot_erases_range [of "0x0100" "0x0102" 2 "[]"]
    by (simp add: upt_rec numeral_3_eq_3)
qed

section \<open>The image translator\<close>

lemma sorted_hd_Min:
  fixes xs :: "int list"
  assumes "sorted xs" "xs \<noteq> []"
  shows "hd xs = Min (set xs)"
proof -
  from assms(2) obtain x ys where xs: "xs = x # ys" by (cases xs) auto
  with assms(1) have "\<forall>y \<in> set ys. x \<le> y" by simp
  then have "Min (set (x # ys)) = x"
    by (intro Min_eqI) auto
  then show ?thesis by (simp add: xs)
qed

lemma sorted_last_Max:
  fixes xs :: "int list"
  assumes "sorted xs" "xs \<noteq> []"
  shows "last xs = Max (set xs)"
  using assms
proof (induction xs)
  case Nil
  then show ?case by simp
next
  case (Cons x ys)
  show ?case
  proof (cases "ys = []")
    case True
    then show ?thesis by simp
  next
    case False
    with Cons have IH: "last ys = Max (set ys)" by simp
    from Cons.prems have le: "\<forall>y \<in> set ys. x \<le> y" by simp
    have "Max (set ys) \<in> set ys"
      using False by (intro Max_in) auto
    with le have "x \<le> Max (set ys)" by blast
    then have "Max (set (x # ys)) = Max (set ys)"
      using False by (simp add: max_def)
    then show ?thesis
      using False IH by simp
  qed
qed

lemma ih_addresses_set: "set (ih_addresses ih) = fst ` set ih"
  by (simp add: ih_addresses_def)

lemma ih_addresses_Nil: "ih_addresses ih = [] \<longleftrightarrow> ih = []"
  unfolding ih_addresses_def by (metis list.map_disc_iff remdups_eq_nil_iff set_empty set_sort)

lemma ih_addresses_hd: "ih \<noteq> [] \<Longrightarrow> hd (ih_addresses ih) = Min (fst ` set ih)"
  using sorted_hd_Min [of "ih_addresses ih"] ih_addresses_Nil [of ih]
  by (simp add: ih_addresses_set) (simp add: ih_addresses_def)

lemma ih_addresses_last: "ih \<noteq> [] \<Longrightarrow> last (ih_addresses ih) = Max (fst ` set ih)"
  using sorted_last_Max [of "ih_addresses ih"] ih_addresses_Nil [of ih]
  by (simp add: ih_addresses_set) (simp add: ih_addresses_def)

lemma spec_chunk_data_length:
  "length (spec_chunk_data ih high chunk addr) = nat (min chunk (high - addr + 1))"
  by (simp add: spec_chunk_data_def)

lemma ih_tobinstr_chunk:
  assumes "1 \<le> chunk" "addr \<le> high"
  shows "ih_tobinstr ih addr (min chunk (high - addr + 1)) = Some (spec_chunk_data ih high chunk addr)"
  using assms by (simp add: ih_tobinstr_def spec_chunk_data_def)

lemma chunk_records_written:
  assumes "0 \<le> addr" "addr \<le> 0xFFFF" "length data \<le> 128"
  shows "\<exists>bin.
     (if erase = 0 \<or> addr mod page \<noteq> 0 then bin_write addr data
      else if erase = 1 then do {
        e \<leftarrow> bin_erase addr [];
        w \<leftarrow> bin_write addr data;
        Some (e @ w) }
      else bin_erase addr data) = Some bin
     \<and> bin_records
         (if erase = 0 \<or> addr mod page \<noteq> 0 then [Write addr data]
          else if erase = 1 then [Erase addr [], Write addr data]
          else [Erase addr data]) = Some bin"
  using assms by (simp add: bin_write_bytes bin_erase_bytes)

lemma mem2boot_loop_step:
  assumes "ih_tobinstr ih a (min recsize (maxaddr - a + 1)) = Some data"
    and "(if erase = 0 \<or> a mod page \<noteq> 0 then bin_write a data
          else if erase = 1 then do {
            e \<leftarrow> bin_erase a [];
            w \<leftarrow> bin_write a data;
            Some (e @ w) }
          else bin_erase a data) = Some bin"
  shows "mem2boot_loop ih page erase maxaddr recsize (a # rest) (crc, brec)
       = mem2boot_loop ih page erase maxaddr recsize rest (crc16 data crc, brec @ bin)"
  by (simp only: mem2boot_loop.simps Let_def assms bind.bind_lunit)

lemma mem2boot_loop_records:
  assumes "\<forall>a \<in> set addrs. 0 \<le> a \<and> a \<le> high" "high \<le> 0xFFFF" "1 \<le> chunk" "chunk \<le> 128"
  shows "\<exists>out.
     bin_records (concat (map (spec_chunk_records ih page erase high chunk) addrs)) = Some out
     \<and> mem2boot_loop ih page erase high chunk addrs (crc16 pre c, brec)
         = Some (crc16 (pre @ concat (map (spec_chunk_data ih high chunk) addrs)) c, brec @ out)"
  using assms(1)
proof (induction addrs arbitrary: pre brec)
  case Nil
  show ?case by simp
next
  case (Cons a addrs)
  define data where "data = spec_chunk_data ih high chunk a"
  from Cons.prems have a: "0 \<le> a" "a \<le> high" by simp_all
  have a16: "a \<le> 0xFFFF" using a(2) assms(2) by simp
  have len: "length data \<le> 128"
    unfolding data_def using assms(4) by (simp add: spec_chunk_data_length)
  have read: "ih_tobinstr ih a (min chunk (high - a + 1)) = Some data"
    unfolding data_def using assms(3) a(2) by (rule ih_tobinstr_chunk)
  from chunk_records_written [OF a(1) a16 len, of erase page] obtain bin where
    bin: "(if erase = 0 \<or> a mod page \<noteq> 0 then bin_write a data
           else if erase = 1 then do {
             e \<leftarrow> bin_erase a [];
             w \<leftarrow> bin_write a data;
             Some (e @ w) }
           else bin_erase a data) = Some bin"
      "bin_records (spec_chunk_records ih page erase high chunk a) = Some bin"
    unfolding spec_chunk_records_def data_def Let_def by blast
  from Cons.prems have "\<forall>a \<in> set addrs. 0 \<le> a \<and> a \<le> high" by simp
  from Cons.IH [OF this, of "pre @ data" "brec @ bin"] obtain out where
    out: "bin_records (concat (map (spec_chunk_records ih page erase high chunk) addrs)) = Some out"
      "mem2boot_loop ih page erase high chunk addrs (crc16 (pre @ data) c, brec @ bin)
         = Some (crc16 ((pre @ data) @ concat (map (spec_chunk_data ih high chunk) addrs)) c,
                 (brec @ bin) @ out)"
    by blast
  have "bin_records (concat (map (spec_chunk_records ih page erase high chunk) (a # addrs)))
      = Some (bin @ out)"
    using bin(2) out(1) by (simp add: bin_records_append)
  moreover have "mem2boot_loop ih page erase high chunk (a # addrs) (crc16 pre c, brec)
      = Some (crc16 (pre @ concat (map (spec_chunk_data ih high chunk) (a # addrs))) c,
              brec @ bin @ out)"
    using out(2) by (simp only: mem2boot_loop_step [OF read bin(1)])
      (simp add: crc16_append data_def)
  ultimately show ?case by blast
qed

lemma mem2boot_empty: "mem2boot brec [] page erase = Some brec"
  by (simp add: mem2boot_def ih_addresses_def)

lemma mem2boot_spec_translate:
  assumes "\<forall>a \<in> fst ` set ih. 0 \<le> a \<and> a \<le> 0xFFFF" "1 \<le> page"
  shows "\<exists>out. bin_records (spec_translate ih page erase) = Some out
               \<and> mem2boot brec ih page erase = Some (brec @ out)"
proof (cases "ih = []")
  case True
  then show ?thesis by (simp add: mem2boot_empty spec_translate_def)
next
  case False
  define lo where "lo = Min (fst ` set ih)"
  define high where "high = Max (fst ` set ih)"
  define low where "low = (lo div page) * page"
  define chunk where "chunk = min 128 page"
  define addrs where "addrs = spec_walk low high chunk"
  define crc where "crc = crc16 (concat (map (spec_chunk_data ih high chunk) addrs)) 0"
  have fin: "finite (fst ` set ih)" "fst ` set ih \<noteq> {}"
    using False by simp_all
  have "lo \<in> fst ` set ih" "high \<in> fst ` set ih"
    unfolding lo_def high_def using fin by (simp_all add: Min_in Max_in)
  with assms(1) have lo: "0 \<le> lo" and high: "high \<le> 0xFFFF" by auto
  have lo_high: "lo \<le> high"
    unfolding lo_def high_def using fin by (meson Max_ge Min_le Min_in order_trans)
  have page: "0 < page" using assms(2) by simp
  have low: "0 \<le> low" "low \<le> lo"
    unfolding low_def using page_floor_bounds [OF lo page] by simp_all
  have chunk: "1 \<le> chunk" "chunk \<le> 128" "0 < chunk"
    unfolding chunk_def using assms(2) by simp_all
  have ne: "ih_addresses ih \<noteq> []"
    using False by (simp add: ih_addresses_Nil)
  have hd: "hd (ih_addresses ih) = lo"
    unfolding lo_def using False by (rule ih_addresses_hd)
  have last: "last (ih_addresses ih) = high"
    unfolding high_def using False by (rule ih_addresses_last)
  have q: "int_truediv lo page = Some (lo div page)"
    using lo page by (rule int_truediv_nonneg)
  have walk: "range_up low (high + 1) chunk = addrs"
    unfolding addrs_def spec_walk_def using chunk(3) by (rule range_up_inclusive)
  then have r: "py_range low (high + 1) chunk = Some addrs"
    using chunk(3) by (simp add: py_range_def)
  have "\<forall>a \<in> set addrs. 0 \<le> a \<and> a \<le> high"
  proof
    fix a assume "a \<in> set addrs"
    then have "low \<le> a \<and> a \<le> high \<and> (a - low) mod chunk = 0"
      unfolding walk [symmetric] using chunk(3) by (simp add: range_up_inclusive_bounds)
    then show "0 \<le> a \<and> a \<le> high"
      using low(1) by simp
  qed
  from mem2boot_loop_records [OF this high chunk(1,2), of ih page erase "[]" 0 brec]
  obtain out where
    out: "bin_records (concat (map (spec_chunk_records ih page erase high chunk) addrs)) = Some out"
      "mem2boot_loop ih page erase high chunk addrs (0, brec) = Some (crc, brec @ out)"
    unfolding crc_def by (auto simp: crc16_Nil_0)
  have "0 \<le> crc" "crc \<le> 0xFFFF"
    unfolding crc_def using crc16_range by simp_all
  moreover have "low \<le> 0xFFFF" using low(2) lo_high high by simp
  moreover have "0 \<le> high" using lo lo_high by simp
  ultimately obtain v where v: "bin_verify low high crc = Some v"
    using low(1) high by (simp add: bin_verify_bytes)
  have "bin_records (spec_translate ih page erase) = Some (out @ v)"
    using False out(1) v
    by (simp add: spec_translate_def Let_def bin_records_append
        lo_def [symmetric] high_def [symmetric] low_def [symmetric] chunk_def [symmetric]
        addrs_def [symmetric] crc_def [symmetric])
  moreover have "mem2boot brec ih page erase = Some (brec @ out @ v)"
    using ne q r out(2) v
    by (simp add: mem2boot_def Let_def hd last low_def [symmetric] chunk_def [symmetric])
  ultimately show ?thesis by simp
qed



section \<open>The session\<close>

lemma ident_loop_records:
  assumes "\<forall>v \<in> set ids. 0 \<le> v \<and> v \<le> 0xFFFF"
  shows "\<exists>out. bin_records (map Identity ids) = Some out \<and> ident_loop ids brec = Some (brec @ out)"
  using assms
proof (induction ids arbitrary: brec)
  case Nil
  show ?case by simp
next
  case (Cons v ids)
  then have "0 \<le> v" "v \<le> 0xFFFF" by simp_all
  then have i: "bin_ident v = Some [0x24, 3, 0x30, word_of_int (v div 256), word_of_int (v mod 256)]"
    by (rule bin_ident_bytes)
  from Cons.prems have "\<forall>v \<in> set ids. 0 \<le> v \<and> v \<le> 0xFFFF" by simp
  from Cons.IH [OF this] obtain out where
    "bin_records (map Identity ids) = Some out"
    "ident_loop ids (brec @ [0x24, 3, 0x30, word_of_int (v div 256), word_of_int (v mod 256)])
       = Some ((brec @ [0x24, 3, 0x30, word_of_int (v div 256), word_of_int (v mod 256)]) @ out)"
    by blast
  with i show ?case by simp
qed

lemma regions_bounds:
  assumes "(start, stop, page) \<in> set (regions type)"
  shows "0 \<le> start \<and> stop \<le> 0xFBFF \<and> 64 \<le> page"
proof (cases "map_of region_table type")
  case None
  with assms show ?thesis by (simp add: regions_def)
next
  case (Some rs)
  then have "(type, rs) \<in> set region_table" by (rule map_of_SomeD)
  moreover have "regions type = rs" using Some by (simp add: regions_def)
  ultimately show ?thesis
    using assms by (auto simp: region_table_def)
qed

lemma get_regions_bounds:
  assumes "(start, stop, page) \<in> set (get_regions org top' type)"
  shows "0 \<le> start \<and> org \<le> start \<and> start < stop \<and> stop \<le> top' \<and> stop \<le> 0xFBFF \<and> 64 \<le> page"
proof -
  from assms obtain s e where
    r: "(s, e, page) \<in> set (regions type)" and c: "start = max org s" "stop = min top' e"
      "max org s < min top' e"
    by (auto simp: get_regions_def get_regions_loop_filter)
  from regions_bounds [OF r] c show ?thesis by auto
qed

lemma ih_slice_subset: "set (ih_slice ih start stop) \<subseteq> set ih"
  by (auto simp: ih_slice_def Let_def)

lemma ih_slice_getitem_0:
  assumes "ih_getitem ih 0 = 0xFF"
  shows "ih_getitem (ih_slice ih start stop) 0 = 0xFF"
proof -
  have "map_of (filter (\<lambda>(a, x). P a) ih) 0 = (if P 0 then map_of ih 0 else None)" for P :: "int \<Rightarrow> bool"
    by (induction ih) auto
  then show ?thesis
    using assms by (auto simp: ih_slice_def Let_def ih_getitem_def padding_def split: option.splits if_splits)
qed

lemma ih_setitem_getitem: "ih_getitem (ih_setitem ih a v) a = v"
  by (simp add: ih_setitem_def ih_getitem_def)

lemma spec_chunk_data_nth:
  assumes "addr \<le> x" "x < addr + int (length (spec_chunk_data ih high chunk addr))"
  shows "spec_chunk_data ih high chunk addr ! nat (x - addr) = ih_getitem ih x"
proof -
  define n where "n = min chunk (high - addr + 1)"
  have len: "length (spec_chunk_data ih high chunk addr) = nat n"
    unfolding n_def by (rule spec_chunk_data_length)
  from assms len have x: "x < addr + int (nat n)" by simp
  with assms(1) have n: "0 < n" "x \<le> addr + n - 1" by (auto split: if_splits)
  have k: "nat (x - addr) < length [addr..addr + n - 1]"
    using assms(1) n by simp
  have "addr + int (nat (x - addr)) \<le> addr + n - 1"
    using assms(1) n by simp
  then have "[addr..addr + n - 1] ! nat (x - addr) = addr + int (nat (x - addr))"
    by (rule nth_upto)
  then show ?thesis
    unfolding spec_chunk_data_def n_def [symmetric] using k assms(1)
    by (simp del: length_upto)
qed

lemma spec_chunk_records_bytes:
  assumes "r \<in> set (spec_chunk_records ih page erase high chunk addr)"
  shows "is_memory_record r \<and> (covers r x \<longrightarrow> byte_at r x = Some (ih_getitem ih x))"
  using assms spec_chunk_data_nth [of addr x ih high chunk]
  by (auto simp: spec_chunk_records_def Let_def split: if_splits)

lemma spec_translate_bytes:
  assumes "r \<in> set (spec_translate ih page erase)"
  shows "is_memory_record r \<and> (covers r x \<longrightarrow> byte_at r x = Some (ih_getitem ih x))"
proof (cases "ih = []")
  case True
  with assms show ?thesis by (simp add: spec_translate_def)
next
  case False
  with assms show ?thesis
    by (auto simp: spec_translate_def Let_def dest: spec_chunk_records_bytes)
qed

lemma ih_slice_bounds:
  assumes "\<forall>a \<in> fst ` set ih. 0 \<le> a" "start < stop" "0 \<le> start" "stop \<le> 0xFFFF"
  shows "\<forall>a \<in> fst ` set (ih_slice ih start stop). 0 \<le> a \<and> a \<le> 0xFFFF"
proof
  fix a assume a: "a \<in> fst ` set (ih_slice ih start stop)"
  with ih_slice_subset [of ih start stop] assms(1) have "0 \<le> a" by blast
  moreover have "stop \<noteq> 0" using assms(2,3) by simp
  with a have "a < stop"
    by (auto simp: ih_slice_def Let_def split: if_splits)
  ultimately show "0 \<le> a \<and> a \<le> 0xFFFF"
    using assms(4) by simp
qed

lemma mem_regions_loop_records:
  assumes "\<forall>a \<in> fst ` set ih. 0 \<le> a"
    and "\<forall>(start, stop, page) \<in> set rs. 0 \<le> start \<and> start < stop \<and> stop \<le> 0xFFFF \<and> 1 \<le> page"
  shows "\<exists>out.
     bin_records (concat (map (\<lambda>(start, stop, page).
                    spec_translate (ih_slice ih start stop) page erase) rs)) = Some out
     \<and> mem_regions_loop ih erase rs brec = Some (brec @ out)"
  using assms(2)
proof (induction rs arbitrary: brec)
  case Nil
  show ?case by simp
next
  case (Cons r rs)
  obtain start stop page where r: "r = (start, stop, page)" by (cases r) auto
  with Cons.prems have b: "0 \<le> start" "start < stop" "stop \<le> 0xFFFF" and page: "1 \<le> page"
    by simp_all
  have "\<forall>a \<in> fst ` set (ih_slice ih start stop). 0 \<le> a \<and> a \<le> 0xFFFF"
    using assms(1) b(2,1,3) by (rule ih_slice_bounds)
  from mem2boot_spec_translate [OF this page, of erase brec] obtain o1 where
    o1: "bin_records (spec_translate (ih_slice ih start stop) page erase) = Some o1"
        "mem2boot brec (ih_slice ih start stop) page erase = Some (brec @ o1)"
    by blast
  from Cons.prems have
    "\<forall>(start, stop, page) \<in> set rs. 0 \<le> start \<and> start < stop \<and> stop \<le> 0xFFFF \<and> 1 \<le> page"
    by simp
  from Cons.IH [OF this, of "brec @ o1"] obtain o2 where
    o2: "bin_records (concat (map (\<lambda>(start, stop, page).
                    spec_translate (ih_slice ih start stop) page erase) rs)) = Some o2"
        "mem_regions_loop ih erase rs (brec @ o1) = Some ((brec @ o1) @ o2)"
    by blast
  show ?case
    using o1 o2 by (simp add: r bin_records_append)
qed

lemma ih_setitem_0_bounds:
  assumes "\<forall>a \<in> fst ` set ih. 0 \<le> a"
  shows "\<forall>a \<in> fst ` set (ih_setitem ih 0 v). 0 \<le> a"
  using assms by (auto simp: ih_setitem_def)

lemma hex2boot_image_session:
  assumes hex: "arg_hexfile args = Some source" and src: "source < length s"
    and wf: "\<forall>a \<in> fst ` set (s ! source). 0 \<le> a"
    and ids: "\<forall>v \<in> set (arg_id args). 0 \<le> v \<and> v \<le> 0xFFFF"
    and lock: "\<forall>l. arg_lock args = Some l \<longrightarrow> 0 \<le> l \<and> l \<le> 0xFFFF"
    and bank: "0 \<le> arg_bank args" "arg_bank args \<le> 0xFF"
  defines "override \<equiv> arg_bank args = 0 \<and> arg_start args = 0 \<and> ih_getitem (s ! source) 0 \<noteq> 0xFF"
  defines "work \<equiv> if override then ih_setitem (s ! source) 0 0xFF else s ! source"
  defines "main \<equiv> concat (map (\<lambda>(start, stop, page).
                      spec_translate (ih_slice work start stop) page (arg_erase args))
                    (get_regions (arg_start args) (arg_top args) (arg_map args)))"
  shows "\<exists>out.
     bin_records (map Identity (arg_id args) @ [Setup (arg_bank args) keys_default] @ main
        @ (if override then [Write 0 [ih_getitem (s ! source) 0]] else [])
        @ (case arg_lock args of Some l \<Rightarrow> [Lock l] | None \<Rightarrow> [])
        @ (if arg_wait args then [] else [RunApp option_default])) = Some out
     \<and> hex2boot s brec args = Some (s @ [work], brec @ out)"
proof -
  from ident_loop_records [OF ids, of brec] obtain o1 where
    o1: "bin_records (map Identity (arg_id args)) = Some o1"
        "ident_loop (arg_id args) brec = Some (brec @ o1)"
    by blast
  obtain o2 where o2: "bin_setup (arg_bank args) keys_default = Some o2"
    using bank by (simp add: bin_setup_bytes keys_default_def)
  have new: "IntelHex s source = Some (s @ [s ! source], length s)"
    using src by (simp add: IntelHex_def)
  have wf_work: "\<forall>a \<in> fst ` set work. 0 \<le> a"
    unfolding work_def using wf ih_setitem_0_bounds [OF wf, of "0xFF"] by simp
  have pages: "\<forall>(start, stop, page) \<in> set (get_regions (arg_start args) (arg_top args) (arg_map args)).
      0 \<le> start \<and> start < stop \<and> stop \<le> 0xFFFF \<and> 1 \<le> page"
    using get_regions_bounds by fastforce
  from mem_regions_loop_records [OF wf_work pages, of "arg_erase args" "brec @ o1 @ o2"]
  obtain o3 where
    o3: "bin_records main = Some o3"
        "mem_regions_loop work (arg_erase args)
           (get_regions (arg_start args) (arg_top args) (arg_map args)) (brec @ o1 @ o2)
         = Some ((brec @ o1 @ o2) @ o3)"
    unfolding main_def by blast
  obtain o4 where o4: "bin_write 0 [ih_getitem (s ! source) 0] = Some o4"
    by (simp add: bin_write_bytes)
  define o4' where "o4' = (if override then o4 else [])"
  have r4: "bin_records (if override then [Write 0 [ih_getitem (s ! source) 0]] else []) = Some o4'"
    using o4 by (simp add: o4'_def)
  obtain o5 where o5: "bin_records (case arg_lock args of Some l \<Rightarrow> [Lock l] | None \<Rightarrow> []) = Some o5"
    "(case arg_lock args of Some l \<Rightarrow> do { l \<leftarrow> bin_lock l; Some (b @ l) } | None \<Rightarrow> Some b) = Some (b @ o5)" for b
    using lock by (cases "arg_lock args") (simp_all add: bin_lock_bytes)
  obtain o6 where o6: "bin_runapp option_default = Some o6"
    by (simp add: bin_runapp_bytes option_default_def)
  define o6' where "o6' = (if arg_wait args then [] else o6)"
  have r6: "bin_records (if arg_wait args then [] else [RunApp option_default]) = Some o6'"
    using o6 by (simp add: o6'_def)
  have r2: "bin_records [Setup (arg_bank args) keys_default] = Some o2"
    using o2 by simp
  have recs: "bin_records (map Identity (arg_id args) @ [Setup (arg_bank args) keys_default] @ main
        @ (if override then [Write 0 [ih_getitem (s ! source) 0]] else [])
        @ (case arg_lock args of Some l \<Rightarrow> [Lock l] | None \<Rightarrow> [])
        @ (if arg_wait args then [] else [RunApp option_default]))
      = Some (o1 @ o2 @ o3 @ o4' @ o5 @ o6')"
    by (intro bin_records_append_Some o1(1) r2 o3(1) r4 o5(1) r6)
  have cond: "(arg_bank args = 0 \<and> arg_start args = 0 \<and> ih_getitem (s ! source) 0 \<noteq> 0xFF) = override"
    by (simp add: override_def)
  have run: "hex2boot s brec args = Some (s @ [work], brec @ o1 @ o2 @ o3 @ o4' @ o5 @ o6')"
  proof (cases override)
    case True
    then have w: "work = ih_setitem (s ! source) 0 0xFF"
      by (simp add: work_def)
    show ?thesis
      unfolding hex2boot_def
      using o3(2) o4 True
      by (simp add: Let_def hex new o1(2) o2 o5(2) o6 o6'_def o4'_def w cond)
  next
    case False
    then have w: "work = s ! source"
      by (simp add: work_def)
    show ?thesis
      unfolding hex2boot_def
      using o3(2) False
      by (simp add: Let_def hex new o1(2) o2 o5(2) o6 o6'_def o4'_def w cond)
  qed
  show ?thesis
    using recs run by simp
qed
text \<open>
  Claim C4. In a session with an image, bank 0, window start 0 and the byte \<open>0x20\<close> at
  address 0 of the image (no negative address, identity and lock values of 16 bits),
  the output is the Identity and Setup records, the records of the main translation of the
  image with \<open>0xFF\<close> at address 0, one Write of the single byte \<open>0x20\<close> to address 0, and
  then the Lock and RunApp records if any; every record of the main translation is an
  Erase, Write or Verify record, and each one whose data covers address 0 carries \<open>0xFF\<close>
  for it.
\<close>

theorem failsafe_reset_vector:
  assumes "arg_bank args = 0" "arg_start args = 0"
    and "arg_hexfile args = Some source" "source < length s"
    and "ih_getitem (s ! source) 0 = 0x20"
    and "\<forall>a \<in> fst ` set (s ! source). 0 \<le> a"
    and "\<forall>v \<in> set (arg_id args). 0 \<le> v \<and> v \<le> 0xFFFF"
    and "\<forall>l. arg_lock args = Some l \<longrightarrow> 0 \<le> l \<and> l \<le> 0xFFFF"
  shows "\<exists>main out s'.
      main = concat (map (\<lambda>(start, stop, page).
                 spec_translate (ih_slice (ih_setitem (s ! source) 0 0xFF) start stop) page
                   (arg_erase args))
               (get_regions 0 (arg_top args) (arg_map args)))
    \<and> bin_records (map Identity (arg_id args) @ [Setup 0 0xA5F1] @ main @ [Write 0 [0x20]]
          @ (case arg_lock args of Some l \<Rightarrow> [Lock l] | None \<Rightarrow> [])
          @ (if arg_wait args then [] else [RunApp 0])) = Some out
    \<and> hex2boot s brec args = Some (s', brec @ out)
    \<and> (\<forall>r \<in> set main. is_memory_record r \<and> (covers r 0 \<longrightarrow> byte_at r 0 = Some 0xFF))"
proof -
  define work where "work = ih_setitem (s ! source) 0 0xFF"
  define main where "main = concat (map (\<lambda>(start, stop, page).
                 spec_translate (ih_slice work start stop) page (arg_erase args))
               (get_regions 0 (arg_top args) (arg_map args)))"
  have bank: "0 \<le> arg_bank args" "arg_bank args \<le> 0xFF"
    using assms(1) by simp_all
  have ov: "(arg_bank args = 0 \<and> arg_start args = 0 \<and> ih_getitem (s ! source) 0 \<noteq> 0xFF) = True"
    using assms(1,2,5) by simp
  note session = hex2boot_image_session [OF assms(3,4,6,7,8) bank, of brec, unfolded ov if_True]
  note session' = session [unfolded assms(1,2,5) keys_default_def option_default_def,
      folded work_def, folded main_def]
  from session' obtain out where
    "bin_records (map Identity (arg_id args) @ [Setup 0 0xA5F1] @ main @ [Write 0 [0x20]]
          @ (case arg_lock args of Some l \<Rightarrow> [Lock l] | None \<Rightarrow> [])
          @ (if arg_wait args then [] else [RunApp 0])) = Some out"
    "hex2boot s brec args = Some (s @ [work], brec @ out)"
    by blast
  moreover have "is_memory_record r \<and> (covers r 0 \<longrightarrow> byte_at r 0 = Some 0xFF)"
    if "r \<in> set main" for r
  proof -
    from that obtain start stop page where
      r: "r \<in> set (spec_translate (ih_slice work start stop) page (arg_erase args))"
      unfolding main_def by auto
    have "ih_getitem work 0 = 0xFF"
      unfolding work_def by (rule ih_setitem_getitem)
    then have "ih_getitem (ih_slice work start stop) 0 = 0xFF"
      by (rule ih_slice_getitem_0)
    with spec_translate_bytes [OF r, of 0] show ?thesis by simp
  qed
  ultimately show ?thesis
    unfolding main_def work_def by blast
qed

theorem failsafe_reset_vector_witness:
  "hex2boot [[(0, 0x20), (1, 0x55)]] []
     \<lparr>arg_bank = 0, arg_erase = 2, arg_id = [], arg_lock = None, arg_map = None,
      arg_start = 0, arg_top = 0xFFFF, arg_wait = False, arg_hexfile = Some 0\<rparr>
   = Some ([[(0, 0x20), (1, 0x55)], [(0, 0xFF), (1, 0x55)]],
           [0x24, 4, 0x31, 0xA5, 0xF1, 0x00,
            0x24, 5, 0x32, 0x00, 0x00, 0xFF, 0x55,
            0x24, 7, 0x34, 0x00, 0x00, 0x00, 0x01, 0x09, 0xAF,
            0x24, 4, 0x33, 0x00, 0x00, 0x20,
            0x24, 3, 0x36, 0x00, 0x00])"
  using failsafe_reset_vector [of
     "\<lparr>arg_bank = 0, arg_erase = 2, arg_id = [], arg_lock = None, arg_map = None,
      arg_start = 0, arg_top = 0xFFFF, arg_wait = False, arg_hexfile = Some 0\<rparr>"
     0 "[[(0, 0x20), (1, 0x55)]]" "[]"]
  by (simp add: hex2boot_def IntelHex_def ih_getitem_def ih_setitem_def padding_def
      get_regions_def regions_def region_table_def ih_slice_def ih_addresses_def mem2boot_def
      int_truediv_def py_range_def range_up.simps ih_tobinstr_def upto.simps
      crc16_def CRC16_XMODEM_TABLE_def
      bin_setup_bytes keys_default_def bin_runapp_bytes option_default_def
      bin_erase_bytes bin_write_bytes bin_verify_bytes)

text \<open>
  Claim C3. In a session with an image, bank 0, window start 0 and a byte other than
  \<open>0xFF\<close> at address 0 of the image (no negative address, identity and lock values of
  16 bits), \<open>hex2boot\<close> returns, and every object the caller
  had in the store is unchanged: the image source still has its original byte at address
  0. The byte \<open>0xFF\<close> is written to the object \<open>hex2boot\<close> allocated, the only new one.
\<close>

theorem failsafe_keeps_source:
  assumes "arg_bank args = 0" "arg_start args = 0"
    and "arg_hexfile args = Some source" "source < length s"
    and "ih_getitem (s ! source) 0 \<noteq> 0xFF"
    and "\<forall>a \<in> fst ` set (s ! source). 0 \<le> a"
    and "\<forall>v \<in> set (arg_id args). 0 \<le> v \<and> v \<le> 0xFFFF"
    and "\<forall>l. arg_lock args = Some l \<longrightarrow> 0 \<le> l \<and> l \<le> 0xFFFF"
  shows "\<exists>s' out main.
      hex2boot s brec args = Some (s', brec @ out)
    \<and> length s' = Suc (length s)
    \<and> take (length s) s' = s
    \<and> s' ! source = s ! source
    \<and> ih_getitem (s' ! source) 0 = ih_getitem (s ! source) 0
    \<and> s' ! length s = ih_setitem (s ! source) 0 0xFF
    \<and> ih_getitem (s' ! length s) 0 = 0xFF
    \<and> main = concat (map (\<lambda>(start, stop, page).
                 spec_translate (ih_slice (s' ! length s) start stop) page (arg_erase args))
               (get_regions 0 (arg_top args) (arg_map args)))
    \<and> bin_records (map Identity (arg_id args) @ [Setup 0 0xA5F1] @ main
          @ [Write 0 [ih_getitem (s ! source) 0]]
          @ (case arg_lock args of Some l \<Rightarrow> [Lock l] | None \<Rightarrow> [])
          @ (if arg_wait args then [] else [RunApp 0])) = Some out"
proof -
  define work where "work = ih_setitem (s ! source) 0 0xFF"
  define main where "main = concat (map (\<lambda>(start, stop, page).
                 spec_translate (ih_slice work start stop) page (arg_erase args))
               (get_regions 0 (arg_top args) (arg_map args)))"
  have bank: "0 \<le> arg_bank args" "arg_bank args \<le> 0xFF"
    using assms(1) by simp_all
  have ov: "(arg_bank args = 0 \<and> arg_start args = 0 \<and> ih_getitem (s ! source) 0 \<noteq> 0xFF) = True"
    using assms(1,2,5) by simp
  note session = hex2boot_image_session [OF assms(3,4,6,7,8) bank, of brec, unfolded ov if_True]
  note session' = session [unfolded assms(1,2) keys_default_def option_default_def,
      folded work_def, folded main_def]
  from session' obtain out where out:
    "bin_records (map Identity (arg_id args) @ [Setup 0 0xA5F1] @ main
          @ [Write 0 [ih_getitem (s ! source) 0]]
          @ (case arg_lock args of Some l \<Rightarrow> [Lock l] | None \<Rightarrow> [])
          @ (if arg_wait args then [] else [RunApp 0])) = Some out"
    "hex2boot s brec args = Some (s @ [work], brec @ out)"
    by blast
  have "(s @ [work]) ! length s = work" by simp
  moreover have "(s @ [work]) ! source = s ! source"
    using assms(4) by (simp add: nth_append)
  moreover have "ih_getitem work 0 = 0xFF"
    unfolding work_def by (rule ih_setitem_getitem)
  ultimately show ?thesis
    using out unfolding main_def work_def by (intro exI [of _ "s @ [ih_setitem (s ! source) 0 0xFF]"] exI [of _ out] exI) simp
qed

theorem failsafe_keeps_source_witness:
  "hex2boot [[(0, 0x20), (1, 0x55)]] []
     \<lparr>arg_bank = 0, arg_erase = 0, arg_id = [0x1234], arg_lock = Some 0x5678, arg_map = None,
      arg_start = 0, arg_top = 0xFFFF, arg_wait = True, arg_hexfile = Some 0\<rparr>
   = Some ([[(0, 0x20), (1, 0x55)], [(0, 0xFF), (1, 0x55)]],
           [0x24, 3, 0x30, 0x12, 0x34,
            0x24, 4, 0x31, 0xA5, 0xF1, 0x00,
            0x24, 5, 0x33, 0x00, 0x00, 0xFF, 0x55,
            0x24, 7, 0x34, 0x00, 0x00, 0x00, 0x01, 0x09, 0xAF,
            0x24, 4, 0x33, 0x00, 0x00, 0x20,
            0x24, 3, 0x35, 0x56, 0x78])"
  using failsafe_keeps_source [of
     "\<lparr>arg_bank = 0, arg_erase = 0, arg_id = [0x1234], arg_lock = Some 0x5678, arg_map = None,
      arg_start = 0, arg_top = 0xFFFF, arg_wait = True, arg_hexfile = Some 0\<rparr>"
     0 "[[(0, 0x20), (1, 0x55)]]" "[]"]
  by (simp add: hex2boot_def IntelHex_def ih_getitem_def ih_setitem_def padding_def
      get_regions_def regions_def region_table_def ih_slice_def ih_addresses_def mem2boot_def
      int_truediv_def py_range_def range_up.simps ih_tobinstr_def upto.simps
      crc16_def CRC16_XMODEM_TABLE_def
      bin_ident_bytes bin_lock_bytes
      bin_setup_bytes keys_default_def bin_runapp_bytes option_default_def
      bin_erase_bytes bin_write_bytes bin_verify_bytes)

lemma ih_slice_excludes_stop:
  assumes "stop \<noteq> 0"
  shows "stop \<notin> fst ` set (ih_slice ih start stop)"
  using assms by (auto simp: ih_slice_def Let_def)

text \<open>
  Claim C2 fails on the code. The image below has its only byte at \<open>0x3DFF\<close>, the
  inclusive end of the first region of \<open>bb2\<close>. The slice \<open>ih[slice(start, stop)]\<close>
  excludes its upper bound, so the view handed to \<open>mem2boot\<close> is empty and the session
  writes the Setup and RunApp records only: the byte is in no Write or Erase record and in
  no checksum.
\<close>

theorem region_end_dropped:
  "get_regions 0 0xFFFF (Some ''bb2'') = [(0x0000, 0x3DFF, 512), (0xF800, 0xFBBF, 64)]
   \<and> ih_slice [(0x3DFF, 0xAA)] 0x0000 0x3DFF = []
   \<and> ih_slice [(0x3DFE, 0x55), (0x3DFF, 0xAA)] 0x0000 0x3DFF = [(0x3DFE, 0x55)]
   \<and> hex2boot [[(0x3DFF, 0xAA)]] []
       \<lparr>arg_bank = 0, arg_erase = 2, arg_id = [], arg_lock = None, arg_map = Some ''bb2'',
        arg_start = 0, arg_top = 0xFFFF, arg_wait = False, arg_hexfile = Some 0\<rparr>
     = Some ([[(0x3DFF, 0xAA)], [(0x3DFF, 0xAA)]],
             [0x24, 4, 0x31, 0xA5, 0xF1, 0x00, 0x24, 3, 0x36, 0x00, 0x00])"
  by (simp add: hex2boot_def IntelHex_def ih_getitem_def padding_def get_regions_def regions_def
      region_table_def ih_slice_def ih_addresses_def mem2boot_def
      bin_setup_bytes keys_default_def bin_runapp_bytes option_default_def)

end
